theory Spec2Isabelle
  imports Main "HOL-Library.Word"
begin

section \<open>Go values as package reflect shows them\<close>

text \<open>
  \<^verbatim>\<open>build.go\<close> walks its input through \<^verbatim>\<open>reflect.Value\<close>. A value is modelled by
  what reflection can observe of it. \<open>VInvalid\<close> is the zero \<^verbatim>\<open>reflect.Value\<close>
  (\<^verbatim>\<open>IsValid() == false\<close>), \<open>VPtr VInvalid\<close> is a nil pointer (its \<^verbatim>\<open>Elem()\<close> is the zero
  Value), \<open>VBytes\<close> is a \<^verbatim>\<open>[]byte\<close> (kind Slice), \<open>VTime\<close> is a \<^verbatim>\<open>time.Time\<close> (kind Struct,
  all fields unexported; the payload is the instant in nanoseconds since the epoch),
  floats carry their IEEE bits, \<open>VInt\<close> is Go's \<^verbatim>\<open>int\<close> on a 64-bit platform. \<open>VOther\<close>
  stands for a value of any other type whose kind is none of Ptr, Struct, Slice, Map,
  String, Array and Chan (unsigned and complex numbers, functions, ...); its argument is
  the type's name. Values of interface type and named types are not modelled; a slice
  therefore holds items of one type only.

  A struct carries its fields in declaration order: name, tag string, whether the field
  is embedded (anonymous), and the field's value. Reflection marks what is read through
  an unexported field as read-only, and \<^verbatim>\<open>value.Interface()\<close> panics on it. The model has
  no such mark: it takes a field to be exported exactly when line 110 of \<^verbatim>\<open>build.go\<close>
  does, which is right for every name that starts with an ASCII byte. An unexported
  field whose name starts with a non-ASCII letter is outside the model (the code does
  not skip it and panics when it reads a scalar below it); the statements about fields
  below speak of names that start with an upper-case ASCII letter.
\<close>

datatype gvalue =
    VInvalid
  | VPtr gvalue
  | VStruct "field list"
  | VSlice "gvalue list"
  | VMap "(string \<times> gvalue) list"
  | VBytes "8 word list"
  | VTime int
  | VString string
  | VBool bool
  | VInt64 "64 word"
  | VInt "64 word"
  | VFloat64 "64 word"
  | VFloat32 "32 word"
  | VInt32 "32 word"
  | VInt16 "16 word"
  | VInt8 "8 word"
  | VUint8 "8 word"
  | VOther string
and field = Field (fname: string) (ftag: string) (fembedded: bool) (fvalue: gvalue)

datatype kind = KInvalid | KPtr | KStruct | KSlice | KMap | KString | KBasic

fun Kind :: "gvalue \<Rightarrow> kind" where
  "Kind VInvalid = KInvalid"
| "Kind (VPtr v) = KPtr"
| "Kind (VStruct fs) = KStruct"
| "Kind (VTime t) = KStruct"
| "Kind (VSlice vs) = KSlice"
| "Kind (VBytes bs) = KSlice"
| "Kind (VMap m) = KMap"
| "Kind (VString s) = KString"
| "Kind v = KBasic"

text \<open>
  \<^verbatim>\<open>func elemOf(value reflect.Value) reflect.Value\<close>: follow pointers until the kind is
  no longer Ptr.
\<close>

fun elemOf :: "gvalue \<Rightarrow> gvalue" where
  "elemOf (VPtr v) = elemOf v"
| "elemOf v = v"

text \<open>
  The fields \<^verbatim>\<open>NumField\<close>/\<^verbatim>\<open>Field(i)\<close> enumerate; \<open>None\<close> where reflect panics because the
  kind is not Struct. The three fields of \<^verbatim>\<open>time.Time\<close> (\<^verbatim>\<open>wall\<close>, \<^verbatim>\<open>ext\<close>, \<^verbatim>\<open>loc\<close>) are
  unexported; their values are opaque here.
\<close>

definition timeFields :: "field list" where
  "timeFields =
     [Field ''wall'' [] False (VOther ''uint64''),
      Field ''ext'' [] False (VOther ''int64''),
      Field ''loc'' [] False (VPtr VInvalid)]"

fun fieldsOf :: "gvalue \<Rightarrow> field list option" where
  "fieldsOf (VStruct fs) = Some fs"
| "fieldsOf (VTime t) = Some timeFields"
| "fieldsOf v = None"

text \<open>
  What \<^verbatim>\<open>Len\<close> and \<^verbatim>\<open>Index(i)\<close> yield, \<open>None\<close> where reflect panics: \<^verbatim>\<open>Len\<close> accepts
  slices, strings and maps (among the kinds modelled), \<^verbatim>\<open>Index\<close> accepts slices and
  strings only, so a non-empty map panics at its first \<^verbatim>\<open>Index\<close>. The elements of a
  \<^verbatim>\<open>[]byte\<close> and of a string are \<^verbatim>\<open>uint8\<close> values.
\<close>

fun listItems :: "gvalue \<Rightarrow> gvalue list option" where
  "listItems (VSlice vs) = Some vs"
| "listItems (VBytes bs) = Some (map VUint8 bs)"
| "listItems (VString s) = Some (map (\<lambda>c. VUint8 (of_char c)) s)"
| "listItems (VMap m) = (if m = [] then Some [] else None)"
| "listItems v = None"

text \<open>A size for the termination of the builder: every value outweighs its parts.\<close>

primrec vsz :: "gvalue \<Rightarrow> nat" and fsz :: "field \<Rightarrow> nat" where
  "vsz VInvalid = 0"
| "vsz (VPtr v) = Suc (vsz v)"
| "vsz (VStruct fs) = Suc (sum_list (map fsz fs))"
| "vsz (VSlice vs) = Suc (sum_list (map vsz vs) + length vs)"
| "vsz (VMap m) = 0"
| "vsz (VBytes bs) = Suc (length bs)"
| "vsz (VTime t) = 5"
| "vsz (VString s) = Suc (length s)"
| "vsz (VBool b) = 0"
| "vsz (VInt64 i) = 0"
| "vsz (VInt i) = 0"
| "vsz (VFloat64 x) = 0"
| "vsz (VFloat32 x) = 0"
| "vsz (VInt32 i) = 0"
| "vsz (VInt16 i) = 0"
| "vsz (VInt8 i) = 0"
| "vsz (VUint8 i) = 0"
| "vsz (VOther s) = 0"
| "fsz (Field nm tg emb v) = Suc (vsz v)"

lemma fsz_fvalue: "fsz f = Suc (vsz (fvalue f))"
  by (cases f) simp

lemma fieldsOf_bound: "fieldsOf v = Some fs \<Longrightarrow> sum_list (map fsz fs) < vsz v"
  by (cases v) (auto simp: timeFields_def)

text \<open>
  \<^verbatim>\<open>FieldByName\<close> of package reflect: a field declared in the struct itself wins.
  Otherwise the fields promoted from embedded structs (or pointers to structs) are
  searched breadth first, one depth at a time: a single match at the shallowest depth
  that has one is the answer, and several matches at that depth hide each other (no
  field is found). \<open>embeddedFields\<close> are the fields one embedded field contributes to
  the next depth. A nil embedded pointer has lost its type in this model and
  contributes nothing.
\<close>

definition embeddedFields :: "field \<Rightarrow> field list list" where
  "embeddedFields f =
     (if fembedded f
      then (case fieldsOf (case fvalue f of VPtr v \<Rightarrow> v | v \<Rightarrow> v) of
              Some gs \<Rightarrow> [gs]
            | None \<Rightarrow> [])
      else [])"

definition levelSize :: "field list list \<Rightarrow> nat" where
  "levelSize level = sum_list (map (\<lambda>fs. Suc (sum_list (map fsz fs))) level)"

lemma levelSize_embeddedFields: "levelSize (embeddedFields f) < fsz f"
proof (cases "fembedded f")
  case False
  then show ?thesis by (simp add: embeddedFields_def levelSize_def fsz_fvalue)
next
  case True
  let ?v = "case fvalue f of VPtr v \<Rightarrow> v | v \<Rightarrow> v"
  have le: "vsz ?v \<le> vsz (fvalue f)" by (cases "fvalue f") simp_all
  show ?thesis
  proof (cases "fieldsOf ?v")
    case None
    with True show ?thesis by (simp add: embeddedFields_def levelSize_def fsz_fvalue)
  next
    case (Some gs)
    then have "sum_list (map fsz gs) < vsz ?v" by (rule fieldsOf_bound)
    with le True Some show ?thesis by (simp add: embeddedFields_def levelSize_def fsz_fvalue)
  qed
qed

lemma levelSize_append: "levelSize (xs @ ys) = levelSize xs + levelSize ys"
  by (simp add: levelSize_def)

lemma levelSize_next: "levelSize (concat (map embeddedFields fs)) \<le> sum_list (map fsz fs)"
proof (induction fs)
  case Nil
  show ?case by (simp add: levelSize_def)
next
  case (Cons f fs)
  with levelSize_embeddedFields [of f] show ?case by (simp add: levelSize_append)
qed

lemma levelSize_concat: "sum_list (map fsz (concat level)) \<le> levelSize level"
  by (induction level) (simp_all add: levelSize_def)

lemma levelSize_decreases:
  "level \<noteq> [] \<Longrightarrow> levelSize (concat (map embeddedFields (concat level))) < levelSize level"
proof -
  assume "level \<noteq> []"
  then have "sum_list (map fsz (concat level)) < levelSize level"
    by (cases level) (simp_all add: levelSize_def le_imp_less_Suc levelSize_concat [unfolded levelSize_def] add_le_mono)
  with levelSize_next [of "concat level"] show ?thesis by simp
qed

function promoted :: "field list list \<Rightarrow> string \<Rightarrow> field option" where
  "promoted level n =
     (if level = [] then None
      else (case filter (\<lambda>f. fname f = n) (concat level) of
              [] \<Rightarrow> promoted (concat (map embeddedFields (concat level))) n
            | [f] \<Rightarrow> Some f
            | f # g # hs \<Rightarrow> None))"
  by pat_completeness auto
termination
  by (relation "measure (\<lambda>(level, n). levelSize level)") (auto dest: levelSize_decreases)

declare promoted.simps [simp del]

definition FieldByName :: "field list \<Rightarrow> string \<Rightarrow> field option" where
  "FieldByName fs n =
     (case find (\<lambda>f. fname f = n) fs of
        Some f \<Rightarrow> Some f
      | None \<Rightarrow> promoted (concat (map embeddedFields fs)) n)"

lemma member_fsz_bound: "f \<in> set fs \<Longrightarrow> fsz f \<le> sum_list (map fsz fs)"
  by (induction fs) auto

lemma find_fsz_bound: "find P fs = Some f \<Longrightarrow> fsz f \<le> sum_list (map fsz fs)"
  by (induction fs) (auto split: if_splits)

lemma promoted_bound: "promoted level n = Some f \<Longrightarrow> fsz f \<le> levelSize level"
proof (induction level n rule: promoted.induct)
  case (1 level n)
  from "1.prems" have ne: "level \<noteq> []"
    by (subst (asm) promoted.simps) (auto split: if_splits)
  show ?case
  proof (cases "filter (\<lambda>f. fname f = n) (concat level)")
    case Nil
    with "1.prems" ne have "promoted (concat (map embeddedFields (concat level))) n = Some f"
      by (subst (asm) promoted.simps) simp
    from "1.IH" [OF ne Nil this] levelSize_decreases [OF ne] show ?thesis by simp
  next
    case (Cons g gs)
    with "1.prems" ne have "gs = []" and "g = f"
      by (subst (asm) promoted.simps, auto split: list.splits)+
    with Cons have "f \<in> set (filter (\<lambda>f. fname f = n) (concat level))" by simp
    then have "f \<in> set (concat level)" by simp
    then have "fsz f \<le> sum_list (map fsz (concat level))" by (rule member_fsz_bound)
    with levelSize_concat [of level] show ?thesis by simp
  qed
qed

lemma FieldByName_bound: "FieldByName fs n = Some f \<Longrightarrow> fsz f \<le> sum_list (map fsz fs)"
proof (cases "find (\<lambda>f. fname f = n) fs")
  case None
  assume "FieldByName fs n = Some f"
  with None have "promoted (concat (map embeddedFields fs)) n = Some f"
    by (simp add: FieldByName_def)
  then have "fsz f \<le> levelSize (concat (map embeddedFields fs))" by (rule promoted_bound)
  with levelSize_next [of fs] show ?thesis by simp
next
  case (Some a)
  assume "FieldByName fs n = Some f"
  with Some have "find (\<lambda>f. fname f = n) fs = Some f" by (simp add: FieldByName_def)
  then show ?thesis by (rule find_fsz_bound)
qed

section \<open>Struct tags\<close>

text \<open>
  \<^verbatim>\<open>reflect.StructTag\<close> is a string; \<^verbatim>\<open>tag.Get(key)\<close> scans it from the left for
  \<^verbatim>\<open>key:"value"\<close> pairs separated by spaces, returns the value of the first pair whose
  key matches, and gives up (returning the empty string) at the first malformed pair.
  \<open>nextPair\<close> is one round of the loop of \<^verbatim>\<open>StructTag.Lookup\<close>: skip blanks, read the
  name up to the colon, read the quoted value (a backslash protects the next byte).
\<close>

definition isNameChar :: "char \<Rightarrow> bool" where
  "isNameChar c \<longleftrightarrow>
     (of_char c :: nat) > 32 \<and> c \<noteq> CHR '':'' \<and> c \<noteq> CHR 0x22 \<and> (of_char c :: nat) \<noteq> 127"

fun splitQuoted :: "string \<Rightarrow> (string \<times> string) option" where
  "splitQuoted [] = None"
| "splitQuoted (c # cs) =
     (if c = CHR 0x22 then Some ([], cs)
      else if c = CHR 0x5C then
        (case cs of
           [] \<Rightarrow> None
         | d # ds \<Rightarrow> map_option (\<lambda>(q, r). (c # d # q, r)) (splitQuoted ds))
      else map_option (\<lambda>(q, r). (c # q, r)) (splitQuoted cs))"

definition nextPair :: "string \<Rightarrow> (string \<times> string \<times> string) option" where
  "nextPair tag =
     (let t = dropWhile (\<lambda>c. c = CHR '' '') tag;
          name = takeWhile isNameChar t
      in if name = [] then None
         else (case dropWhile isNameChar t of
                 c1 # c2 # r \<Rightarrow>
                   if c1 = CHR '':'' \<and> c2 = CHR 0x22
                   then map_option (\<lambda>(q, rest). (name, q, rest)) (splitQuoted r)
                   else None
               | _ \<Rightarrow> None))"

text \<open>
  \<^verbatim>\<open>strconv.Unquote\<close> on the quoted value: a raw newline is a syntax error, the
  one-letter escapes and the escaped quote and backslash are decoded. Numeric escapes
  (\<^verbatim>\<open>\x\<close>, \<^verbatim>\<open>\u\<close>, \<^verbatim>\<open>\U\<close>, octal) are outside this model and count as malformed here;
  the tag is assumed to be valid UTF-8, as Go source text is.
\<close>

fun escapeChar :: "char \<Rightarrow> char option" where
  "escapeChar c =
     (if c = CHR ''a'' then Some (CHR 0x07)
      else if c = CHR ''b'' then Some (CHR 0x08)
      else if c = CHR ''f'' then Some (CHR 0x0C)
      else if c = CHR ''n'' then Some (CHR 0x0A)
      else if c = CHR ''r'' then Some (CHR 0x0D)
      else if c = CHR ''t'' then Some (CHR 0x09)
      else if c = CHR ''v'' then Some (CHR 0x0B)
      else if c = CHR 0x5C then Some (CHR 0x5C)
      else if c = CHR 0x22 then Some (CHR 0x22)
      else None)"

fun unquote :: "string \<Rightarrow> string option" where
  "unquote [] = Some []"
| "unquote (c # cs) =
     (if c = CHR 0x0A then None
      else if c = CHR 0x5C then
        (case cs of
           [] \<Rightarrow> None
         | d # ds \<Rightarrow>
             (case escapeChar d of
                None \<Rightarrow> None
              | Some e \<Rightarrow> map_option ((#) e) (unquote ds)))
      else map_option ((#) c) (unquote cs))"

lemma splitQuoted_shorter: "splitQuoted r = Some (q, rest) \<Longrightarrow> length rest < length r"
proof (induction r arbitrary: q rest rule: splitQuoted.induct)
  case 1
  then show ?case by simp
next
  case (2 c cs)
  then show ?case
    by (fastforce split: if_splits list.splits)
qed

lemma nextPair_shorter: "nextPair tag = Some (n, q, rest) \<Longrightarrow> length rest < length tag"
proof -
  assume a: "nextPair tag = Some (n, q, rest)"
  let ?t = "dropWhile (\<lambda>c. c = CHR '' '') tag"
  from a obtain c1 c2 r where d: "dropWhile isNameChar ?t = c1 # c2 # r"
    and s: "splitQuoted r = Some (q, rest)"
    by (auto simp: nextPair_def Let_def split: if_splits list.splits)
  have "length rest < length r" using s by (rule splitQuoted_shorter)
  also have "length r < length (dropWhile isNameChar ?t)" using d by simp
  also have "\<dots> \<le> length ?t" by (rule length_dropWhile_le)
  also have "\<dots> \<le> length tag" by (rule length_dropWhile_le)
  finally show ?thesis .
qed

function Lookup :: "string \<Rightarrow> string \<Rightarrow> string option" where
  "Lookup tag key =
     (case nextPair tag of
        None \<Rightarrow> None
      | Some (name, q, rest) \<Rightarrow> if key = name then unquote q else Lookup rest key)"
  by pat_completeness auto
termination
  by (relation "measure (\<lambda>(tag, key). length tag)") (auto dest: nextPair_shorter)

declare Lookup.simps [simp del]

definition Get :: "string \<Rightarrow> string \<Rightarrow> string" where
  "Get tag key = (case Lookup tag key of Some v \<Rightarrow> v | None \<Rightarrow> [])"

section \<open>The XML tree\<close>

text \<open>
  Modelled from the spec: the type \<^verbatim>\<open>XMLNode\<close> and its functions \<^verbatim>\<open>NewXMLElement\<close> and
  \<^verbatim>\<open>AddChild\<close> are used by \<^verbatim>\<open>build.go\<close> but declared elsewhere in the package. The spec
  (section 3) gives a node a qualified name, an "ordered list of child nodes (grouped,
  insertion order preserved)", an ordered list of name/value attribute pairs and an
  optional text content. The children are kept here as groups keyed by the child's
  local name (\<^verbatim>\<open>BuildXML\<close> ranges over \<^verbatim>\<open>root.Children\<close> and then over each group); a
  group is created when its first child arrives and later children of that name are
  appended to it. A nil and an empty group list, attribute list or text are not
  distinguished.
\<close>

datatype xml_Name = XName (Space: string) (Local: string)

datatype xml_Attr = XAttr (AttrName: xml_Name) (AttrValue: string)

datatype XMLNode =
  XMLNode (Name: xml_Name) (Children: "(string \<times> XMLNode list) list") (Text: string)
    (Attr: "xml_Attr list")

definition NewXMLElement :: "xml_Name \<Rightarrow> XMLNode" where
  "NewXMLElement name = XMLNode name [] [] []"

fun addToGroup :: "string \<Rightarrow> XMLNode \<Rightarrow> (string \<times> XMLNode list) list \<Rightarrow> (string \<times> XMLNode list) list" where
  "addToGroup k c [] = [(k, [c])]"
| "addToGroup k c ((k', g) # gs) =
     (if k' = k then (k', g @ [c]) # gs else (k', g) # addToGroup k c gs)"

definition AddChild :: "XMLNode \<Rightarrow> XMLNode \<Rightarrow> XMLNode" where
  "AddChild n child =
     XMLNode (Name n) (addToGroup (Local (Name child)) child (Children n)) (Text n) (Attr n)"

definition appendAttr :: "XMLNode \<Rightarrow> xml_Attr \<Rightarrow> XMLNode" where
  \<comment> \<open>\<^verbatim>\<open>n.Attr = append(n.Attr, a)\<close>\<close>
  "appendAttr n a = XMLNode (Name n) (Children n) (Text n) (Attr n @ [a])"

section \<open>Scalars\<close>

text \<open>
  The conversions of the standard library that \<^verbatim>\<open>buildScalar\<close> calls.
  \<^verbatim>\<open>strconv.FormatBool\<close>, \<^verbatim>\<open>strconv.FormatInt(_, 10)\<close> / \<^verbatim>\<open>strconv.Itoa\<close> and
  \<^verbatim>\<open>base64.StdEncoding.EncodeToString\<close> are written out. The float and time formatters
  are parameters of the model: \<^verbatim>\<open>strconv.FormatFloat(_, 'f', -1, 64)\<close>, the same at 32
  bits, and \<^verbatim>\<open>t.UTC().Format("2006-01-02T15:04:05Z")\<close>.
\<close>

record stdlib =
  FormatFloat64 :: "64 word \<Rightarrow> string"
  FormatFloat32 :: "32 word \<Rightarrow> string"
  FormatTimeUTC :: "int \<Rightarrow> string"

definition FormatBool :: "bool \<Rightarrow> string" where
  "FormatBool b = (if b then ''true'' else ''false'')"

definition digitChar :: "nat \<Rightarrow> char" where
  "digitChar d = char_of (48 + d)"

function decimal :: "nat \<Rightarrow> string" where
  "decimal n = (if n < 10 then [digitChar n] else decimal (n div 10) @ [digitChar (n mod 10)])"
  by pat_completeness auto
termination
  by (relation "measure id") auto

declare decimal.simps [simp del]

definition FormatInt :: "int \<Rightarrow> string" where
  "FormatInt i = (if i < 0 then CHR ''-'' # decimal (nat (- i)) else decimal (nat i))"

definition b64 :: "nat \<Rightarrow> char" where
  "b64 i = ''ABCDEFGHIJKLMNOPQRSTUVWXYZabcdefghijklmnopqrstuvwxyz0123456789+/'' ! i"

fun EncodeToString :: "8 word list \<Rightarrow> string" where
  "EncodeToString [] = []"
| "EncodeToString [a] =
     [b64 (unat a div 4), b64 (unat a mod 4 * 16), CHR ''='', CHR ''='']"
| "EncodeToString [a, b] =
     [b64 (unat a div 4), b64 (unat a mod 4 * 16 + unat b div 16),
      b64 (unat b mod 16 * 4), CHR ''='']"
| "EncodeToString (a # b # c # rest) =
     [b64 (unat a div 4), b64 (unat a mod 4 * 16 + unat b div 16),
      b64 (unat b mod 16 * 4 + unat c div 64), b64 (unat c mod 64)] @ EncodeToString rest"

text \<open>
  The type switch of \<^verbatim>\<open>buildScalar\<close> (lines 182-203): the text of the eight types it
  lists, \<open>None\<close> for the \<^verbatim>\<open>default\<close> branch.
\<close>

fun scalarText :: "stdlib \<Rightarrow> gvalue \<Rightarrow> string option" where
  "scalarText L (VString s) = Some s"
| "scalarText L (VBytes bs) = Some (EncodeToString bs)"
| "scalarText L (VBool b) = Some (FormatBool b)"
| "scalarText L (VInt64 i) = Some (FormatInt (sint i))"
| "scalarText L (VInt i) = Some (FormatInt (sint i))"
| "scalarText L (VFloat64 x) = Some (FormatFloat64 L x)"
| "scalarText L (VFloat32 x) = Some (FormatFloat32 L x)"
| "scalarText L (VTime t) = Some (FormatTimeUTC L t)"
| "scalarText L v = None"

section \<open>The builder\<close>

text \<open>
  Failures. The two errors of \<^verbatim>\<open>build.go\<close> carry the names the spec gives them:
  \<open>UnsupportedContainerKind\<close> is \<^verbatim>\<open>fmt.Errorf("maps are not supported for this protocol")\<close>,
  \<open>UnsupportedScalarType\<close> is
  \<^verbatim>\<open>fmt.Errorf("unsupported value for param %s: %v (%s)", ...)\<close> with the location name
  and the offending value. \<open>Panic\<close> is a run-time panic of reflect or of a slice
  expression: the call does not return.
\<close>

datatype error =
    UnsupportedContainerKind
  | UnsupportedScalarType string gvalue
  | Panic

text \<open>
  The builder mutates the node \<^verbatim>\<open>current\<close> in place; the model returns the updated
  node. Where the source attaches a fresh child first and fills it afterwards (the two
  loops of \<^verbatim>\<open>buildList\<close>), the model fills it and then attaches it: the parent holds a
  pointer to the child, so on success the trees are the same, and on failure the tree is
  dropped by \<^verbatim>\<open>BuildXML\<close>. The table \<^verbatim>\<open>b.namespaces\<close> is written at line 101 and never read;
  it has no influence on the tree and is left out.
\<close>

definition buildMap :: "stdlib \<Rightarrow> gvalue \<Rightarrow> XMLNode \<Rightarrow> string \<Rightarrow> error + XMLNode" where
  "buildMap L value current tag = Inl UnsupportedContainerKind"

definition buildScalar :: "stdlib \<Rightarrow> gvalue \<Rightarrow> XMLNode \<Rightarrow> string \<Rightarrow> error + XMLNode" where
  "buildScalar L value current tag =
     (case scalarText L value of
        None \<Rightarrow> Inl (UnsupportedScalarType (Get tag ''locationName'') value)
      | Some str \<Rightarrow>
          (let xname = XName [] (Get tag ''locationName'')
           in if Get tag ''xmlAttribute'' \<noteq> []
              then Inr (appendAttr current (XAttr xname str))
              else Inr (AddChild current (XMLNode xname [] str []))))"

text \<open>
  Line 110: \<^verbatim>\<open>c := Name[0:1]; strings.ToLower(c) == c\<close>. For an ASCII byte this holds
  unless the byte is an upper-case letter; a lone byte of a multi-byte character is not
  valid UTF-8 and \<^verbatim>\<open>ToLower\<close> replaces it, so the comparison fails and the field is
  not skipped.
\<close>

definition lowerFirst :: "char \<Rightarrow> bool" where
  "lowerFirst c \<longleftrightarrow>
     (of_char c :: nat) < 128 \<and> \<not> (65 \<le> (of_char c :: nat) \<and> (of_char c :: nat) \<le> 90)"

text \<open>Lines 82-90: the payload field named by the tag replaces value and tag.\<close>

definition unwrapPayload :: "gvalue \<Rightarrow> string \<Rightarrow> error + (gvalue \<times> string)" where
  "unwrapPayload value tag =
     (let payload = Get tag ''payload''
      in if payload \<noteq> [] then
           (case fieldsOf value of
              None \<Rightarrow> Inl Panic
            | Some fs \<Rightarrow>
                (case FieldByName fs payload of
                   None \<Rightarrow> Inr (VInvalid, [])
                 | Some f \<Rightarrow> Inr (elemOf (fvalue f), ftag f)))
         else Inr (value, tag))"

text \<open>Lines 92-106: the element of the structure, with its namespace attribute.\<close>

definition structElement :: "string \<Rightarrow> XMLNode" where
  "structElement tag =
     (let child = NewXMLElement (XName [] (Get tag ''locationName''));
          prefix = Get tag ''xmlPrefix'';
          uri = Get tag ''xmlURI''
      in if uri \<noteq> []
         then appendAttr child
                (XAttr (XName [] (if prefix \<noteq> [] then ''xmlns:'' @ prefix else ''xmlns'')) uri)
         else child)"

text \<open>Lines 47-57: the node kind, from the tag or else from the value's kind.\<close>

definition resolveType :: "gvalue \<Rightarrow> string \<Rightarrow> string" where
  "resolveType value tag =
     (let t = Get tag ''type''
      in if t = [] then
           (case Kind value of
              KStruct \<Rightarrow> ''structure''
            | KSlice \<Rightarrow> ''list''
            | KMap \<Rightarrow> ''map''
            | _ \<Rightarrow> [])
         else t)"

text \<open>Lines 122-126: the member's tag, with the field name as default location name.\<close>

definition memberTag :: "field \<Rightarrow> string" where
  \<open>memberTag f =
     (if Get (ftag f) ''locationName'' = []
      then ftag f @ '' locationName:"'' @ fname f @ ''"''
      else ftag f)\<close>

subsection \<open>Termination of the recursive descent\<close>


lemma vsz_elemOf: "vsz (elemOf v) \<le> vsz v"
  by (induction v rule: elemOf.induct) auto


lemma unwrapPayload_bound: "unwrapPayload value tag = Inr (value', tag') \<Longrightarrow> vsz value' \<le> vsz value"
proof -
  assume a: "unwrapPayload value tag = Inr (value', tag')"
  show ?thesis
  proof (cases "Get tag ''payload'' = []")
    case True
    with a show ?thesis by (simp add: unwrapPayload_def)
  next
    case False
    with a obtain fs where fs: "fieldsOf value = Some fs"
      by (auto simp: unwrapPayload_def split: option.splits)
    show ?thesis
    proof (cases "FieldByName fs (Get tag ''payload'')")
      case None
      with a False fs show ?thesis by (simp add: unwrapPayload_def)
    next
      case (Some f)
      with a False fs have v: "value' = elemOf (fvalue f)" by (simp add: unwrapPayload_def)
      have "vsz value' \<le> vsz (fvalue f)" unfolding v by (rule vsz_elemOf)
      also have "\<dots> < fsz f" by (simp add: fsz_fvalue)
      also have "\<dots> \<le> sum_list (map fsz fs)" using Some by (rule FieldByName_bound)
      also have "\<dots> < vsz value" using fs by (rule fieldsOf_bound)
      finally show ?thesis by simp
    qed
  qed
qed

lemma listItems_bound: "listItems v = Some xs \<Longrightarrow> sum_list (map vsz xs) + length xs \<le> vsz v"
  by (cases v) (auto simp: comp_def split: if_splits)

function buildValue :: "stdlib \<Rightarrow> gvalue \<Rightarrow> XMLNode \<Rightarrow> string \<Rightarrow> error + XMLNode"
  and buildStruct :: "stdlib \<Rightarrow> gvalue \<Rightarrow> XMLNode \<Rightarrow> string \<Rightarrow> error + XMLNode"
  and buildFields :: "stdlib \<Rightarrow> field list \<Rightarrow> XMLNode \<Rightarrow> bool \<Rightarrow> error + (XMLNode \<times> bool)"
  and buildList :: "stdlib \<Rightarrow> gvalue \<Rightarrow> XMLNode \<Rightarrow> string \<Rightarrow> error + XMLNode"
  and buildItems :: "stdlib \<Rightarrow> gvalue list \<Rightarrow> xml_Name \<Rightarrow> XMLNode \<Rightarrow> error + XMLNode"
where
  "buildValue L v current tag =
     (let value = elemOf v
      in if value = VInvalid then Inr current
         else if Get tag ''location'' \<noteq> [] then Inr current
         else (let t = resolveType value tag
               in if t = ''structure'' then
                    (case fieldsOf value of
                       None \<Rightarrow> Inl Panic
                     | Some fs \<Rightarrow>
                         buildStruct L value current
                           (case FieldByName fs ''SDKShapeTraits'' of
                              Some f \<Rightarrow> tag @ '' '' @ ftag f
                            | None \<Rightarrow> tag))
                  else if t = ''list'' then buildList L value current tag
                  else if t = ''map'' then buildMap L value current tag
                  else buildScalar L value current tag))"
| "buildStruct L value current tag =
     (if value = VInvalid then Inr current
      else (case unwrapPayload value tag of
              Inl e \<Rightarrow> Inl e
            | Inr (value', tag') \<Rightarrow>
                if value' = VInvalid then Inr current
                else (case fieldsOf value' of
                        None \<Rightarrow> Inl Panic
                      | Some fs \<Rightarrow>
                          (case buildFields L fs (structElement tag') False of
                             Inl e \<Rightarrow> Inl e
                           | Inr (child, fieldAdded) \<Rightarrow>
                               Inr (if fieldAdded then AddChild current child else current)))))"
| "buildFields L [] child fieldAdded = Inr (child, fieldAdded)"
| "buildFields L (f # fs) child fieldAdded =
     (case fname f of
        [] \<Rightarrow> Inl Panic
      | c # cs \<Rightarrow>
          if lowerFirst c then buildFields L fs child fieldAdded
          else if Get (ftag f) ''location'' \<noteq> [] then buildFields L fs child fieldAdded
          else (case buildValue L (elemOf (fvalue f)) child (memberTag f) of
                  Inl e \<Rightarrow> Inl e
                | Inr child' \<Rightarrow> buildFields L fs child' True))"
| "buildList L value current tag =
     (let flattened = (Get tag ''flattened'' \<noteq> []);
          xname = XName [] (Get tag ''locationName'')
      in case listItems value of
           None \<Rightarrow> Inl Panic
         | Some items \<Rightarrow>
             if flattened then buildItems L items xname current
             else (let iname = (if Get tag ''locationNameList'' = [] then ''member''
                                else Get tag ''locationNameList'')
                   in case buildItems L items (XName [] iname) (NewXMLElement xname) of
                        Inl e \<Rightarrow> Inl e
                      | Inr list \<Rightarrow> Inr (AddChild current list)))"
| "buildItems L [] name parent = Inr parent"
| "buildItems L (x # xs) name parent =
     (case buildValue L x (NewXMLElement name) [] of
        Inl e \<Rightarrow> Inl e
      | Inr child \<Rightarrow> buildItems L xs name (AddChild parent child))"
  by pat_completeness auto
termination
proof (relation "measure (\<lambda>x. case x of
      Inl (Inl (L, v, c, t)) \<Rightarrow> 3 * vsz v + 2
    | Inl (Inr (L, v, c, t)) \<Rightarrow> 3 * vsz v + 1
    | Inr (Inl (L, fs, c, b)) \<Rightarrow> 3 * sum_list (map fsz fs)
    | Inr (Inr (Inl (L, v, c, t))) \<Rightarrow> 3 * vsz v + 1
    | Inr (Inr (Inr (L, xs, n, p))) \<Rightarrow> 3 * (sum_list (map vsz xs) + length xs))", goal_cases)
  case 1
  show ?case by simp
next
  case (2 L v current tag x xa x2)
  then show ?case using vsz_elemOf [of v] by simp
next
  case (3 L v current tag x xa)
  then show ?case using vsz_elemOf [of v] by simp
next
  case (4 L val current tag x xa y x2)
  then show ?case
    using unwrapPayload_bound [of val tag xa y] fieldsOf_bound [of xa x2] by simp
next
  case 5
  then show ?case by (simp add: fsz_fvalue)
next
  case 6
  then show ?case by (simp add: fsz_fvalue)
next
  case (7 L f fs child fieldAdded x21 x22)
  then show ?case using vsz_elemOf [of "fvalue f"] by (simp add: fsz_fvalue)
next
  case 8
  then show ?case by (simp add: fsz_fvalue)
next
  case (9 L val current tag x xa x2)
  then show ?case using listItems_bound [of val x2] by simp
next
  case (10 L val current tag x xa x2 xb)
  then show ?case using listItems_bound [of val x2] by simp
next
  case 11
  then show ?case by simp
next
  case 12
  then show ?case by simp
qed

declare buildValue.simps [simp del] buildStruct.simps [simp del] buildList.simps [simp del]

text \<open>
  \<^verbatim>\<open>BuildXML\<close> (lines 13-25) builds into a fresh root and hands the first child of the
  first group to \<^verbatim>\<open>StructToXML\<close>, the serializer, which is not part of this file. The
  model returns the node that is handed over, \<open>None\<close> when the root has no child.
\<close>

definition firstChild :: "XMLNode \<Rightarrow> XMLNode option" where
  "firstChild root = (case concat (map snd (Children root)) of [] \<Rightarrow> None | v # _ \<Rightarrow> Some v)"

definition BuildXML :: "stdlib \<Rightarrow> gvalue \<Rightarrow> error + XMLNode option" where
  "BuildXML L params =
     (case buildValue L params (NewXMLElement (XName [] [])) [] of
        Inl e \<Rightarrow> Inl e
      | Inr root \<Rightarrow> Inr (firstChild root))"

text \<open>
  An instance of the library parameter for evaluating examples; the examples in this
  file contain neither floats nor times.
\<close>

definition sampleLib :: stdlib where
  "sampleLib = \<lparr>FormatFloat64 = (\<lambda>_. ''0''), FormatFloat32 = (\<lambda>_. ''0''),
     FormatTimeUTC = (\<lambda>_. ''1970-01-01T00:00:00Z'')\<rparr>"

text \<open>The group of children of a node under one local name (empty if there is none).\<close>

definition childrenNamed :: "XMLNode \<Rightarrow> string \<Rightarrow> XMLNode list" where
  "childrenNamed n k = (case map_of (Children n) k of None \<Rightarrow> [] | Some g \<Rightarrow> g)"

text \<open>
  What the spec's table asks of the text of a signed integer \<open>k\<close>: "decimal, no leading
  zeros, sign only if negative". \<open>plainDecimal ds n\<close>: \<open>ds\<close> is a non-empty string of
  digits that denotes \<open>n\<close> and starts with \<open>0\<close> only if it is \<open>0\<close> itself.
\<close>

definition isDigit :: "char \<Rightarrow> bool" where
  "isDigit c \<longleftrightarrow> 48 \<le> (of_char c :: nat) \<and> (of_char c :: nat) \<le> 57"

definition digitsValue :: "string \<Rightarrow> nat" where
  "digitsValue ds = foldl (\<lambda>a c. 10 * a + (of_char c - 48)) 0 ds"

definition plainDecimal :: "string \<Rightarrow> nat \<Rightarrow> bool" where
  "plainDecimal ds n \<longleftrightarrow>
     ds \<noteq> [] \<and> list_all isDigit ds \<and> (hd ds = CHR ''0'' \<longrightarrow> ds = ''0'') \<and> digitsValue ds = n"

definition canonicalDecimal :: "string \<Rightarrow> int \<Rightarrow> bool" where
  "canonicalDecimal s k \<longleftrightarrow>
     (if k < 0
      then (case s of [] \<Rightarrow> False | c # ds \<Rightarrow> c = CHR ''-'' \<and> plainDecimal ds (nat (- k)))
      else plainDecimal s (nat k))"

text \<open>
  \<open>itemsBuilt L name items children\<close>: the \<open>i\<close>-th child is what \<^verbatim>\<open>buildValue\<close> makes of the
  \<open>i\<close>-th item, built with the empty tag into a fresh element called \<open>name\<close>.
\<close>

definition itemsBuilt :: "stdlib \<Rightarrow> xml_Name \<Rightarrow> gvalue list \<Rightarrow> XMLNode list \<Rightarrow> bool" where
  "itemsBuilt L name items children \<longleftrightarrow>
     list_all2 (\<lambda>x c. buildValue L x (NewXMLElement name) [] = Inr c) items children"



text \<open>
  The shape invariant of the spec (section 3): no node of the tree carries both a text
  and children. \<open>nodesOf\<close> lists the nodes of a tree.
\<close>

fun wellShaped :: "XMLNode \<Rightarrow> bool" where
  "wellShaped (XMLNode n cs t as) \<longleftrightarrow>
     (t = [] \<or> cs = []) \<and> (\<forall>g \<in> set cs. \<forall>c \<in> set (snd g). wellShaped c)"

fun nodesOf :: "XMLNode \<Rightarrow> XMLNode list" where
  "nodesOf (XMLNode n cs t as) =
     XMLNode n cs t as # concat (map (\<lambda>g. concat (map nodesOf (snd g))) cs)"

text \<open>
  A tag is well formed when the loop of \<^verbatim>\<open>Lookup\<close> can read all of it: \<open>tagPairs\<close> lists
  its keys with their quoted values, \<open>None\<close> if some pair is malformed.
\<close>

function tagPairs :: "string \<Rightarrow> (string \<times> string) list option" where
  "tagPairs tag =
     (if dropWhile (\<lambda>c. c = CHR '' '') tag = [] then Some []
      else (case nextPair tag of
              None \<Rightarrow> None
            | Some (name, q, rest) \<Rightarrow> map_option ((#) (name, q)) (tagPairs rest)))"
  by pat_completeness auto
termination
  by (relation "measure length") (auto dest: nextPair_shorter)

declare tagPairs.simps [simp del]


text \<open>
  The filter of the field loop as the code applies it (lines 110-120): the first byte
  of the name passes line 110 and the tag has no \<^verbatim>\<open>location\<close>. After every field that
  passes, the loop sets \<^verbatim>\<open>fieldAdded\<close>.
\<close>

definition kept :: "field \<Rightarrow> bool" where
  "kept f \<longleftrightarrow>
     (case fname f of [] \<Rightarrow> False | c # cs \<Rightarrow> \<not> lowerFirst c) \<and> Get (ftag f) ''location'' = []"

section \<open>Basic facts about nodes\<close>

lemma map_of_addToGroup:
  "map_of (addToGroup k c gs) k' =
     (if k' = k then Some ((case map_of gs k of None \<Rightarrow> [] | Some g \<Rightarrow> g) @ [c])
      else map_of gs k')"
  by (induction gs) auto

lemma childrenNamed_AddChild:
  "childrenNamed (AddChild n c) k =
     (if k = Local (Name c) then childrenNamed n k @ [c] else childrenNamed n k)"
  by (simp add: childrenNamed_def AddChild_def map_of_addToGroup)

lemma AddChild_sel [simp]:
  "Name (AddChild n c) = Name n" "Text (AddChild n c) = Text n" "Attr (AddChild n c) = Attr n"
  by (simp_all add: AddChild_def)

lemma appendAttr_sel [simp]:
  "Name (appendAttr n a) = Name n" "Text (appendAttr n a) = Text n"
  "Children (appendAttr n a) = Children n" "Attr (appendAttr n a) = Attr n @ [a]"
  by (simp_all add: appendAttr_def)

section \<open>Placement of scalars\<close>

text \<open>
  Claim C7 (attribute placement). For a scalar whose type has a canonical text \<open>str\<close>,
  \<^verbatim>\<open>buildScalar\<close> succeeds and changes exactly one thing in the current node. If the tag
  sets \<^verbatim>\<open>xmlAttribute\<close>, the pair (locationName, \<open>str\<close>) is appended to the current node's
  attribute list and the children are untouched: no element is created. Otherwise a
  text leaf named locationName holding \<open>str\<close> (no children, no attributes) is appended
  to the children named locationName; the other groups of children and the attributes
  are untouched. Name and text of the current node never change.
\<close>

theorem scalar_placement:
  assumes "scalarText L v = Some str"
  shows "\<exists>r. buildScalar L v current tag = Inr r
     \<and> Name r = Name current \<and> Text r = Text current
     \<and> (if Get tag ''xmlAttribute'' \<noteq> []
        then r = appendAttr current (XAttr (XName [] (Get tag ''locationName'')) str)
           \<and> Attr r = Attr current @ [XAttr (XName [] (Get tag ''locationName'')) str]
           \<and> Children r = Children current
        else r = AddChild current (XMLNode (XName [] (Get tag ''locationName'')) [] str [])
           \<and> Attr r = Attr current
           \<and> (\<forall>k. childrenNamed r k =
                 (if k = Get tag ''locationName''
                  then childrenNamed current k
                         @ [XMLNode (XName [] (Get tag ''locationName'')) [] str []]
                  else childrenNamed current k)))"
  using assms by (simp add: buildScalar_def Let_def childrenNamed_AddChild)

theorem scalar_placement_witness:
  \<open>scalarText sampleLib (VBool True) = Some ''true''
   \<and> buildScalar sampleLib (VBool True) (NewXMLElement (XName [] ''E''))
         ''locationName:"a" xmlAttribute:"true"''
       = Inr (XMLNode (XName [] ''E'') [] [] [XAttr (XName [] ''a'') ''true''])
   \<and> buildScalar sampleLib (VBool True) (NewXMLElement (XName [] ''E'')) ''locationName:"a"''
       = Inr (XMLNode (XName [] ''E'') [(''a'', [XMLNode (XName [] ''a'') [] ''true'' []])] [] [])\<close>
proof -
  have h: "scalarText sampleLib (VBool True) = Some ''true''"
    by (simp add: FormatBool_def)
  have g1: \<open>Get ''locationName:"a" xmlAttribute:"true"'' ''xmlAttribute'' = ''true''\<close>
    by code_simp
  have g2: \<open>Get ''locationName:"a" xmlAttribute:"true"'' ''locationName'' = ''a''\<close>
    by code_simp
  have g3: \<open>Get ''locationName:"a"'' ''xmlAttribute'' = []\<close>
    by code_simp
  have g4: \<open>Get ''locationName:"a"'' ''locationName'' = ''a''\<close>
    by code_simp
  from scalar_placement [OF h, of "NewXMLElement (XName [] ''E'')"
      \<open>''locationName:"a" xmlAttribute:"true"''\<close>]
  have a: \<open>buildScalar sampleLib (VBool True) (NewXMLElement (XName [] ''E''))
         ''locationName:"a" xmlAttribute:"true"''
       = Inr (XMLNode (XName [] ''E'') [] [] [XAttr (XName [] ''a'') ''true''])\<close>
    by (auto simp: g1 g2 appendAttr_def NewXMLElement_def)
  from scalar_placement [OF h, of "NewXMLElement (XName [] ''E'')" \<open>''locationName:"a"''\<close>]
  have b: \<open>buildScalar sampleLib (VBool True) (NewXMLElement (XName [] ''E'')) ''locationName:"a"''
       = Inr (XMLNode (XName [] ''E'') [(''a'', [XMLNode (XName [] ''a'') [] ''true'' []])] [] [])\<close>
    by (auto simp: g3 g4 AddChild_def NewXMLElement_def)
  from h a b show ?thesis by simp
qed

section \<open>Scalar encoding\<close>

lemma char_of_48: "char_of (48::nat) = CHR ''0''"
  by code_simp

lemma of_char_digitChar: "d < 10 \<Longrightarrow> (of_char (digitChar d) :: nat) = 48 + d"
  by (simp add: digitChar_def)

lemma digitChar_zero: "d < 10 \<Longrightarrow> digitChar d = CHR ''0'' \<longleftrightarrow> d = 0"
proof
  assume d: "d < 10" and "digitChar d = CHR ''0''"
  then have "(of_char (digitChar d) :: nat) = of_char CHR ''0''" by simp
  with d show "d = 0" by (simp add: of_char_digitChar)
next
  assume "d = 0" then show "digitChar d = CHR ''0''" by (simp add: digitChar_def char_of_48)
qed

lemma decimal_nonempty: "decimal n \<noteq> []"
  by (subst decimal.simps) simp

lemma decimal_digits: "list_all isDigit (decimal n)"
proof (induction n rule: decimal.induct)
  case (1 n)
  show ?case
  proof (cases "n < 10")
    case True
    then show ?thesis by (subst decimal.simps) (simp add: isDigit_def of_char_digitChar)
  next
    case False
    have "n mod 10 < 10" by simp
    then have "isDigit (digitChar (n mod 10))"
      unfolding isDigit_def by (simp only: of_char_digitChar) simp
    with False 1 show ?thesis by (subst decimal.simps) simp
  qed
qed

lemma decimal_value: "digitsValue (decimal n) = n"
proof (induction n rule: decimal.induct)
  case (1 n)
  show ?case
  proof (cases "n < 10")
    case True
    then show ?thesis by (subst decimal.simps) (simp add: digitsValue_def of_char_digitChar)
  next
    case False
    have m: "n mod 10 < 10" by simp
    from False 1 have "digitsValue (decimal (n div 10)) = n div 10" by simp
    with False show ?thesis
      by (subst decimal.simps) (simp add: digitsValue_def of_char_digitChar [OF m])
  qed
qed

lemma decimal_leading: "hd (decimal n) = CHR ''0'' \<Longrightarrow> n = 0"
proof (induction n rule: decimal.induct)
  case (1 n)
  show ?case
  proof (cases "n < 10")
    case True
    with "1.prems" show ?thesis by (subst (asm) decimal.simps) (simp add: digitChar_zero)
  next
    case False
    with "1.prems" have "hd (decimal (n div 10)) = CHR ''0''"
      by (subst (asm) decimal.simps) (simp add: decimal_nonempty)
    with False 1 have "n div 10 = 0" by simp
    with False show ?thesis by simp
  qed
qed

lemma decimal_zero: "decimal 0 = ''0''"
  by (subst decimal.simps) (simp add: digitChar_def char_of_48)

lemma plainDecimal_decimal: "plainDecimal (decimal n) n"
proof -
  have "hd (decimal n) = CHR ''0'' \<longrightarrow> decimal n = ''0''"
    using decimal_leading [of n] decimal_zero by auto
  then show ?thesis
    by (simp add: plainDecimal_def decimal_nonempty decimal_digits decimal_value)
qed

lemma canonicalDecimal_FormatInt: "canonicalDecimal (FormatInt k) k"
  by (simp add: canonicalDecimal_def FormatInt_def plainDecimal_decimal)

text \<open>
  Claim C4, as amended. The type switch of \<^verbatim>\<open>buildScalar\<close> gives a text to exactly eight
  types: string (verbatim), \<^verbatim>\<open>[]byte\<close> (padded base64), bool, the signed integer types
  \<^verbatim>\<open>int64\<close> and \<^verbatim>\<open>int\<close> (canonical decimal: no leading zeros, a sign only when negative),
  \<^verbatim>\<open>float64\<close>, \<^verbatim>\<open>float32\<close> and \<^verbatim>\<open>time.Time\<close>. Every other value, the signed integers of
  width 8, 16 and 32 among them, fails with \<open>UnsupportedScalarType\<close> carrying the
  location name and the value.
\<close>

theorem scalar_encoding:
  "scalarText L (VString s) = Some s
   \<and> scalarText L (VBytes bs) = Some (EncodeToString bs)
   \<and> scalarText L (VBool b) = Some (if b then ''true'' else ''false'')
   \<and> (\<exists>str. scalarText L (VInt64 i) = Some str \<and> canonicalDecimal str (sint i))
   \<and> (\<exists>str. scalarText L (VInt j) = Some str \<and> canonicalDecimal str (sint j))
   \<and> scalarText L (VFloat64 x) = Some (FormatFloat64 L x)
   \<and> scalarText L (VFloat32 y) = Some (FormatFloat32 L y)
   \<and> scalarText L (VTime t) = Some (FormatTimeUTC L t)
   \<and> ((scalarText L v = None) =
        (v \<notin> range VString \<union> range VBytes \<union> range VBool \<union> range VInt64 \<union> range VInt
             \<union> range VFloat64 \<union> range VFloat32 \<union> range VTime))
   \<and> (scalarText L v = None \<longrightarrow>
        buildScalar L v current tag = Inl (UnsupportedScalarType (Get tag ''locationName'') v))
   \<and> scalarText L (VInt32 a) = None \<and> scalarText L (VInt16 b16) = None
   \<and> scalarText L (VInt8 b8) = None"
proof -
  have "(scalarText L v = None) =
        (v \<notin> range VString \<union> range VBytes \<union> range VBool \<union> range VInt64 \<union> range VInt
             \<union> range VFloat64 \<union> range VFloat32 \<union> range VTime)"
    by (cases v) auto
  moreover have "scalarText L v = None \<longrightarrow>
        buildScalar L v current tag = Inl (UnsupportedScalarType (Get tag ''locationName'') v)"
    by (simp add: buildScalar_def)
  ultimately show ?thesis
    by (simp add: FormatBool_def canonicalDecimal_FormatInt)
qed

theorem scalar_encoding_witness:
  \<open>scalarText sampleLib (VInt64 (- 42)) = Some ''-42''
   \<and> canonicalDecimal ''-42'' (- 42)
   \<and> scalarText sampleLib (VOther ''uint'') = None
   \<and> buildScalar sampleLib (VOther ''uint'') (NewXMLElement (XName [] [])) ''locationName:"N"''
        = Inl (UnsupportedScalarType ''N'' (VOther ''uint''))\<close>
proof -
  have s: "sint (- 42 :: 64 word) = - 42" by simp
  have f: "FormatInt (- 42) = ''-42''" by code_simp
  have g: \<open>Get ''locationName:"N"'' ''locationName'' = ''N''\<close> by code_simp
  have n: "scalarText sampleLib (VOther ''uint'') = None" by simp
  note E = scalar_encoding [of sampleLib _ _ _ "- 42" _ _ _ _ "VOther ''uint''"
      "NewXMLElement (XName [] [])" \<open>''locationName:"N"''\<close>]
  note E3 = E [THEN conjunct2, THEN conjunct2, THEN conjunct2]
  from E3 [THEN conjunct1]
  have c: "canonicalDecimal ''-42'' (- 42)" by (simp add: s f)
  note E9 = E3 [THEN conjunct2, THEN conjunct2, THEN conjunct2, THEN conjunct2, THEN conjunct2,
      THEN conjunct2]
  from E9 [THEN conjunct1] n
  have e: \<open>buildScalar sampleLib (VOther ''uint'') (NewXMLElement (XName [] [])) ''locationName:"N"''
        = Inl (UnsupportedScalarType ''N'' (VOther ''uint''))\<close>
    by (simp add: g)
  from c e n show ?thesis by (simp add: s f)
qed

text \<open>
  The claim as stated ("every signed integer of any width is encoded as its decimal
  text") fails for a 32-bit integer: \<^verbatim>\<open>int32\<close> is not a case of the type switch.
\<close>

theorem int32_unsupported:
  \<open>buildScalar sampleLib (VInt32 5) (NewXMLElement (XName [] [])) ''locationName:"Count"''
     = Inl (UnsupportedScalarType ''Count'' (VInt32 5))\<close>
  by code_simp

section \<open>Lists\<close>

lemma nextPair_Nil: "nextPair [] = None"
  by (simp add: nextPair_def)

lemma Get_Nil [simp]: "Get [] key = []"
  by (simp add: Get_def Lookup.simps nextPair_Nil)

lemma buildValue_skip:
  "elemOf v = VInvalid \<or> Get tag ''location'' \<noteq> [] \<Longrightarrow> buildValue L v current tag = Inr current"
  by (auto simp: buildValue.simps Let_def)

lemma buildValue_dispatch:
  "elemOf v \<noteq> VInvalid \<Longrightarrow> Get tag ''location'' = [] \<Longrightarrow>
   buildValue L v current tag =
     (if resolveType (elemOf v) tag = ''structure'' then
        (case fieldsOf (elemOf v) of
           None \<Rightarrow> Inl Panic
         | Some fs \<Rightarrow>
             buildStruct L (elemOf v) current
               (case FieldByName fs ''SDKShapeTraits'' of
                  Some f \<Rightarrow> tag @ '' '' @ ftag f
                | None \<Rightarrow> tag))
      else if resolveType (elemOf v) tag = ''list'' then buildList L (elemOf v) current tag
      else if resolveType (elemOf v) tag = ''map'' then buildMap L (elemOf v) current tag
      else buildScalar L (elemOf v) current tag)"
  by (simp add: buildValue.simps Let_def)

lemma buildItems_iff:
  "buildItems L xs name parent = Inr r \<longleftrightarrow>
     (\<exists>children. list_all2 (\<lambda>x c. buildValue L x (NewXMLElement name) [] = Inr c) xs children
        \<and> r = foldl AddChild parent children)"
proof (induction xs arbitrary: parent)
  case Nil
  show ?case by auto
next
  case (Cons x xs)
  show ?case
  proof (cases "buildValue L x (NewXMLElement name) []")
    case (Inl e)
    then show ?thesis by (auto simp: list_all2_Cons1)
  next
    case (Inr c)
    then show ?thesis by (auto simp: Cons.IH list_all2_Cons1)
  qed
qed

lemma foldl_AddChild_sel [simp]:
  "Name (foldl AddChild n cs) = Name n" "Text (foldl AddChild n cs) = Text n"
  "Attr (foldl AddChild n cs) = Attr n"
  by (induction cs arbitrary: n) simp_all

lemma childrenNamed_foldl_AddChild:
  "\<forall>c \<in> set cs. Local (Name c) = nm \<Longrightarrow>
   childrenNamed (foldl AddChild n cs) k =
     (if k = nm then childrenNamed n k @ cs else childrenNamed n k)"
  by (induction cs arbitrary: n) (simp_all add: childrenNamed_AddChild)

lemma addToGroup_same: "addToGroup k c ((k, g) # gs) = (k, g @ [c]) # gs"
  by simp

lemma Children_foldl_AddChild_group:
  "\<forall>c \<in> set cs. Local (Name c) = nm \<Longrightarrow>
   Children (foldl AddChild (XMLNode n ((nm, g) # gs) t a) cs) = (nm, g @ cs) # gs"
  by (induction cs arbitrary: g) (simp_all add: AddChild_def)

lemma Children_foldl_AddChild_new:
  assumes "\<forall>c \<in> set cs. Local (Name c) = nm"
  shows "Children (foldl AddChild (NewXMLElement n) cs) = (if cs = [] then [] else [(nm, cs)])"
proof (cases cs)
  case Nil
  then show ?thesis by (simp add: NewXMLElement_def)
next
  case (Cons c cs')
  with assms have "\<forall>c \<in> set cs'. Local (Name c) = nm" and "Local (Name c) = nm" by simp_all
  then show ?thesis
    using Children_foldl_AddChild_group [of cs' nm n "[c]" "[]" "[]" "[]"]
    by (simp add: Cons NewXMLElement_def AddChild_def)
qed

lemma buildItems_sel:
  "buildItems L xs name parent = Inr r \<Longrightarrow>
     Name r = Name parent \<and> Text r = Text parent \<and> Attr r = Attr parent"
  by (auto simp: buildItems_iff)

lemma buildScalar_sel:
  "buildScalar L v cur tag = Inr r \<Longrightarrow> Name r = Name cur \<and> Text r = Text cur"
  by (auto simp: buildScalar_def Let_def split: option.splits if_splits)

lemma buildStruct_sel:
  "buildStruct L v cur tag = Inr r \<Longrightarrow>
     Name r = Name cur \<and> Text r = Text cur \<and> Attr r = Attr cur"
  by (auto simp: buildStruct.simps split: if_splits sum.splits option.splits prod.splits)

lemma buildList_sel:
  "buildList L v cur tag = Inr r \<Longrightarrow>
     Name r = Name cur \<and> Text r = Text cur \<and> Attr r = Attr cur"
  by (auto simp: buildList.simps Let_def dest: buildItems_sel
      split: if_splits sum.splits option.splits)

lemma buildValue_sel:
  "buildValue L v cur tag = Inr r \<Longrightarrow> Name r = Name cur \<and> Text r = Text cur"
  by (auto simp: buildValue.simps Let_def buildMap_def
      dest: buildStruct_sel buildList_sel buildScalar_sel
      split: if_splits option.splits)

lemma itemsBuilt_names:
  "itemsBuilt L name items children \<Longrightarrow> \<forall>c \<in> set children. Name c = name"
  unfolding itemsBuilt_def
proof (induction rule: list_all2_induct)
  case Nil
  show ?case by simp
next
  case (Cons x xs c cs)
  from Cons.hyps(1) have "Name c = name"
    by (auto dest: buildValue_sel simp: NewXMLElement_def)
  with Cons.IH show ?case by simp
qed

lemma buildItems_built:
  "itemsBuilt L name xs children \<Longrightarrow>
     buildItems L xs name parent = Inr (foldl AddChild parent children)"
  unfolding itemsBuilt_def using buildItems_iff by blast

lemma buildItems_wrapped_iff:
  "(case buildItems L items nm lst of Inl e \<Rightarrow> Inl e | Inr l \<Rightarrow> Inr (AddChild current l)) = Inr r
     \<longleftrightarrow> (\<exists>children. itemsBuilt L nm items children
            \<and> r = AddChild current (foldl AddChild lst children))"
  (is "?lhs \<longleftrightarrow> ?rhs")
proof
  assume ?lhs
  then obtain l where l: "buildItems L items nm lst = Inr l" and r: "r = AddChild current l"
    by (cases "buildItems L items nm lst") auto
  from l obtain children where "itemsBuilt L nm items children"
    and "l = foldl AddChild lst children"
    unfolding itemsBuilt_def buildItems_iff by blast
  with r show ?rhs by blast
next
  assume ?rhs
  then obtain children where c: "itemsBuilt L nm items children"
    and r: "r = AddChild current (foldl AddChild lst children)"
    by blast
  from c have "buildItems L items nm lst = Inr (foldl AddChild lst children)"
    by (rule buildItems_built)
  with r show ?lhs by simp
qed

text \<open>
  Claim C6 (list shape). Let the value have the items \<open>items\<close> (\<^verbatim>\<open>Len\<close> and \<^verbatim>\<open>Index\<close>
  succeed). \<^verbatim>\<open>buildList\<close> succeeds exactly when every item builds, and then: with
  \<^verbatim>\<open>flattened\<close> set, the result is the parent with the item elements added one by one, in
  the order of the items, each a fresh element named locationName, and no wrapper; with
  \<^verbatim>\<open>flattened\<close> unset, the result is the parent with one wrapper named locationName added,
  which holds the item elements, each named locationNameList (or \<^verbatim>\<open>member\<close>), in the order
  of the items. The second part spells the shapes out: there are as many item elements
  as items, the \<open>i\<close>-th is built from the \<open>i\<close>-th item and keeps its name, the flattened
  elements are appended to the parent's children of that name with nothing else changed,
  and the wrapper has no children but the item elements.
\<close>

theorem list_shape:
  assumes "listItems value = Some items"
  shows "(buildList L value current tag = Inr r \<longleftrightarrow>
           (\<exists>children.
              if Get tag ''flattened'' \<noteq> []
              then itemsBuilt L (XName [] (Get tag ''locationName'')) items children
                 \<and> r = foldl AddChild current children
              else itemsBuilt L (XName [] (if Get tag ''locationNameList'' = [] then ''member''
                                           else Get tag ''locationNameList'')) items children
                 \<and> r = AddChild current
                         (foldl AddChild (NewXMLElement (XName [] (Get tag ''locationName'')))
                            children)))
     \<and> (itemsBuilt L (XName [] nm) items children \<longrightarrow>
          length children = length items
        \<and> (\<forall>i < length items.
              buildValue L (items ! i) (NewXMLElement (XName [] nm)) [] = Inr (children ! i)
            \<and> Name (children ! i) = XName [] nm)
        \<and> (\<forall>k. childrenNamed (foldl AddChild current children) k =
                 (if k = nm then childrenNamed current k @ children else childrenNamed current k))
        \<and> Attr (foldl AddChild current children) = Attr current
        \<and> Children (foldl AddChild (NewXMLElement (XName [] wn)) children) =
             (if items = [] then [] else [(nm, children)])
        \<and> (\<forall>k. childrenNamed
                  (AddChild current (foldl AddChild (NewXMLElement (XName [] wn)) children)) k =
                 (if k = wn
                  then childrenNamed current k
                         @ [foldl AddChild (NewXMLElement (XName [] wn)) children]
                  else childrenNamed current k)))"
proof (intro conjI impI)
  show "buildList L value current tag = Inr r \<longleftrightarrow>
           (\<exists>children.
              if Get tag ''flattened'' \<noteq> []
              then itemsBuilt L (XName [] (Get tag ''locationName'')) items children
                 \<and> r = foldl AddChild current children
              else itemsBuilt L (XName [] (if Get tag ''locationNameList'' = [] then ''member''
                                           else Get tag ''locationNameList'')) items children
                 \<and> r = AddChild current
                         (foldl AddChild (NewXMLElement (XName [] (Get tag ''locationName'')))
                            children))"
  proof (cases "Get tag ''flattened'' \<noteq> []")
    case True
    with assms show ?thesis
      by (simp add: buildList.simps itemsBuilt_def buildItems_iff)
  next
    case False
    with assms show ?thesis
      by (simp only: buildList.simps Let_def option.case if_False buildItems_wrapped_iff)
  qed
next
  assume b: "itemsBuilt L (XName [] nm) items children"
  then have l2: "list_all2 (\<lambda>x c. buildValue L x (NewXMLElement (XName [] nm)) [] = Inr c)
      items children"
    by (simp add: itemsBuilt_def)
  from b have names: "\<forall>c \<in> set children. Name c = XName [] nm" by (rule itemsBuilt_names)
  then have locals: "\<forall>c \<in> set children. Local (Name c) = nm" by simp
  from l2 show len: "length children = length items" by (simp add: list_all2_lengthD)
  show "\<forall>i < length items.
          buildValue L (items ! i) (NewXMLElement (XName [] nm)) [] = Inr (children ! i)
        \<and> Name (children ! i) = XName [] nm"
    using l2 names len by (auto simp: list_all2_conv_all_nth)
  show "\<forall>k. childrenNamed (foldl AddChild current children) k =
                 (if k = nm then childrenNamed current k @ children else childrenNamed current k)"
    using childrenNamed_foldl_AddChild [OF locals] by simp
  show "Attr (foldl AddChild current children) = Attr current" by simp
  show "Children (foldl AddChild (NewXMLElement (XName [] wn)) children) =
             (if items = [] then [] else [(nm, children)])"
    using Children_foldl_AddChild_new [OF locals] len by auto
  show "\<forall>k. childrenNamed
                  (AddChild current (foldl AddChild (NewXMLElement (XName [] wn)) children)) k =
                 (if k = wn
                  then childrenNamed current k
                         @ [foldl AddChild (NewXMLElement (XName [] wn)) children]
                  else childrenNamed current k)"
    by (simp add: childrenNamed_AddChild NewXMLElement_def)
qed

theorem list_shape_witness:
  \<open>listItems (VSlice [VString ''a'', VString ''b'']) = Some [VString ''a'', VString ''b'']
   \<and> itemsBuilt sampleLib (XName [] ''Tag'') [VString ''a'', VString ''b'']
        [XMLNode (XName [] ''Tag'') [([], [XMLNode (XName [] []) [] ''a'' []])] [] [],
         XMLNode (XName [] ''Tag'') [([], [XMLNode (XName [] []) [] ''b'' []])] [] []]
   \<and> buildList sampleLib (VSlice [VString ''a'', VString ''b'']) (NewXMLElement (XName [] ''R''))
        ''locationName:"Tag" flattened:"true"''
       = Inr (XMLNode (XName [] ''R'')
           [(''Tag'',
             [XMLNode (XName [] ''Tag'') [([], [XMLNode (XName [] []) [] ''a'' []])] [] [],
              XMLNode (XName [] ''Tag'') [([], [XMLNode (XName [] []) [] ''b'' []])] [] []])]
           [] [])
   \<and> itemsBuilt sampleLib (XName [] ''member'') [VString ''a'', VString ''b'']
        [XMLNode (XName [] ''member'') [([], [XMLNode (XName [] []) [] ''a'' []])] [] [],
         XMLNode (XName [] ''member'') [([], [XMLNode (XName [] []) [] ''b'' []])] [] []]
   \<and> buildList sampleLib (VSlice [VString ''a'', VString ''b'']) (NewXMLElement (XName [] ''R''))
        ''locationName:"Tags"''
       = Inr (XMLNode (XName [] ''R'')
           [(''Tags'',
             [XMLNode (XName [] ''Tags'')
               [(''member'',
                 [XMLNode (XName [] ''member'') [([], [XMLNode (XName [] []) [] ''a'' []])] [] [],
                  XMLNode (XName [] ''member'') [([], [XMLNode (XName [] []) [] ''b'' []])] [] []])]
               [] []])]
           [] [])
   \<and> (1::nat) < length [VString ''a'', VString ''b'']
   \<and> buildValue sampleLib ([VString ''a'', VString ''b''] ! 1) (NewXMLElement (XName [] ''Tag'')) []
       = Inr (XMLNode (XName [] ''Tag'') [([], [XMLNode (XName [] []) [] ''b'' []])] [] [])\<close>
proof -
  let ?items = "[VString ''a'', VString ''b'']"
  let ?cur = "NewXMLElement (XName [] ''R'')"
  let ?ft = \<open>''locationName:"Tag" flattened:"true"''\<close>
  let ?wt = \<open>''locationName:"Tags"''\<close>
  let ?fc = "[XMLNode (XName [] ''Tag'') [([], [XMLNode (XName [] []) [] ''a'' []])] [] [],
         XMLNode (XName [] ''Tag'') [([], [XMLNode (XName [] []) [] ''b'' []])] [] []]"
  let ?mc = "[XMLNode (XName [] ''member'') [([], [XMLNode (XName [] []) [] ''a'' []])] [] [],
         XMLNode (XName [] ''member'') [([], [XMLNode (XName [] []) [] ''b'' []])] [] []]"
  have h: "listItems (VSlice ?items) = Some ?items" by simp
  have f1: "Get ?ft ''flattened'' = ''true''" by code_simp
  have f2: "Get ?ft ''locationName'' = ''Tag''" by code_simp
  have w1: "Get ?wt ''flattened'' = []" by code_simp
  have w2: "Get ?wt ''locationName'' = ''Tags''" by code_simp
  have w3: "Get ?wt ''locationNameList'' = []" by code_simp
  have ib: "itemsBuilt sampleLib (XName [] ''Tag'') ?items ?fc" by code_simp
  have im: "itemsBuilt sampleLib (XName [] ''member'') ?items ?mc" by code_simp
  have "\<exists>children. itemsBuilt sampleLib (XName [] ''Tag'') ?items children
      \<and> foldl AddChild ?cur ?fc = foldl AddChild ?cur children"
    using ib by blast
  with list_shape [OF h, of sampleLib ?cur ?ft "foldl AddChild ?cur ?fc", THEN conjunct1]
  have a: "buildList sampleLib (VSlice ?items) ?cur ?ft = Inr (foldl AddChild ?cur ?fc)"
    by (simp add: f1 f2)
  have "\<exists>children. itemsBuilt sampleLib (XName [] ''member'') ?items children
      \<and> AddChild ?cur (foldl AddChild (NewXMLElement (XName [] ''Tags'')) ?mc)
        = AddChild ?cur (foldl AddChild (NewXMLElement (XName [] ''Tags'')) children)"
    using im by blast
  with list_shape [OF h, of sampleLib ?cur ?wt
      "AddChild ?cur (foldl AddChild (NewXMLElement (XName [] ''Tags'')) ?mc)", THEN conjunct1]
  have b: "buildList sampleLib (VSlice ?items) ?cur ?wt
      = Inr (AddChild ?cur (foldl AddChild (NewXMLElement (XName [] ''Tags'')) ?mc))"
    by (simp add: w1 w2 w3)
  from list_shape [OF h, of sampleLib ?cur ?ft "foldl AddChild ?cur ?fc" "''Tag''" ?fc "''W''",
      THEN conjunct2] ib
  have every: "\<forall>i < length ?items.
          buildValue sampleLib (?items ! i) (NewXMLElement (XName [] ''Tag'')) [] = Inr (?fc ! i)
        \<and> Name (?fc ! i) = XName [] ''Tag''"
    by blast
  from every [rule_format, of 1]
  have c: "buildValue sampleLib (?items ! 1) (NewXMLElement (XName [] ''Tag'')) [] = Inr (?fc ! 1)"
    by simp
  from a b h ib im c show ?thesis
    by (simp add: AddChild_def NewXMLElement_def)
qed

lemma scalar_item_built:
  assumes "scalarText L (elemOf x) = Some t" and "Kind (elemOf x) \<notin> {KStruct, KSlice}"
  shows "buildValue L x (NewXMLElement name) [] =
           Inr (XMLNode name [([], [XMLNode (XName [] []) [] t []])] [] [])"
proof -
  from assms have r: "resolveType (elemOf x) [] = []"
    by (cases "elemOf x") (simp_all add: resolveType_def)
  from assms(1) have v: "elemOf x \<noteq> VInvalid" by auto
  from assms(1) have "buildScalar L (elemOf x) (NewXMLElement name) [] =
      Inr (XMLNode name [([], [XMLNode (XName [] []) [] t []])] [] [])"
    by (simp add: buildScalar_def AddChild_def NewXMLElement_def)
  with r v show ?thesis by (simp add: buildValue.simps)
qed

text \<open>
  Claim C10, as amended (shape of a scalar item's node). Items are built with the empty
  tag, so their node kind comes from the value's kind alone: an item reaches
  \<^verbatim>\<open>buildScalar\<close> when its kind is none of Struct, Slice and Map, that is, when it is a
  string, a bool, an \<^verbatim>\<open>int64\<close>, an \<^verbatim>\<open>int\<close> or a float. For a list of such items every
  per-item element (named locationName when flattened, locationNameList or \<^verbatim>\<open>member\<close>
  otherwise) has no text of its own and exactly one child: a text leaf whose name is
  empty and whose text is the item's canonical text.
\<close>

theorem scalar_item_shape:
  assumes "list_all2 (\<lambda>x t. scalarText L (elemOf x) = Some t
              \<and> Kind (elemOf x) \<notin> {KStruct, KSlice}) items texts"
  shows "itemsBuilt L name items
           (map (\<lambda>t. XMLNode name [([], [XMLNode (XName [] []) [] t []])] [] []) texts)
     \<and> buildList L (VSlice items) current tag =
         Inr (if Get tag ''flattened'' \<noteq> []
              then foldl AddChild current
                     (map (\<lambda>t. XMLNode (XName [] (Get tag ''locationName''))
                                  [([], [XMLNode (XName [] []) [] t []])] [] []) texts)
              else AddChild current
                     (foldl AddChild (NewXMLElement (XName [] (Get tag ''locationName'')))
                        (map (\<lambda>t. XMLNode
                                     (XName [] (if Get tag ''locationNameList'' = [] then ''member''
                                                else Get tag ''locationNameList''))
                                     [([], [XMLNode (XName [] []) [] t []])] [] []) texts)))"
proof -
  have built: "itemsBuilt L nm items
           (map (\<lambda>t. XMLNode nm [([], [XMLNode (XName [] []) [] t []])] [] []) texts)" for nm
    unfolding itemsBuilt_def using assms
  proof (induction rule: list_all2_induct)
    case Nil
    show ?case by simp
  next
    case (Cons x xs t ts)
    then show ?case by (simp add: scalar_item_built)
  qed
  show ?thesis
  proof (cases "Get tag ''flattened'' \<noteq> []")
    case True
    then show ?thesis
      using built buildItems_built [OF built, of "XName [] (Get tag ''locationName'')" current]
      by (simp add: buildList.simps)
  next
    case False
    show ?thesis
      using False built
        buildItems_built [OF built, of "XName [] (if Get tag ''locationNameList'' = [] then ''member''
                                                else Get tag ''locationNameList'')"
          "NewXMLElement (XName [] (Get tag ''locationName''))"]
      by (simp add: buildList.simps)
  qed
qed

theorem scalar_item_shape_witness:
  \<open>list_all2 (\<lambda>x t. scalarText sampleLib (elemOf x) = Some t
              \<and> Kind (elemOf x) \<notin> {KStruct, KSlice})
      [VPtr (VString ''a''), VPtr (VString ''b'')] [''a'', ''b'']
   \<and> buildList sampleLib (VSlice [VPtr (VString ''a''), VPtr (VString ''b'')])
        (NewXMLElement (XName [] ''R'')) ''locationName:"Tags"''
       = Inr (XMLNode (XName [] ''R'')
           [(''Tags'',
             [XMLNode (XName [] ''Tags'')
               [(''member'',
                 [XMLNode (XName [] ''member'') [([], [XMLNode (XName [] []) [] ''a'' []])] [] [],
                  XMLNode (XName [] ''member'') [([], [XMLNode (XName [] []) [] ''b'' []])] [] []])]
               [] []])]
           [] [])
   \<and> buildList sampleLib (VSlice [VPtr (VString ''a''), VPtr (VString ''b'')])
        (NewXMLElement (XName [] ''R'')) ''locationName:"Tag" flattened:"true"''
       = Inr (XMLNode (XName [] ''R'')
           [(''Tag'',
             [XMLNode (XName [] ''Tag'') [([], [XMLNode (XName [] []) [] ''a'' []])] [] [],
              XMLNode (XName [] ''Tag'') [([], [XMLNode (XName [] []) [] ''b'' []])] [] []])]
           [] [])\<close>
proof -
  let ?items = "[VPtr (VString ''a''), VPtr (VString ''b'')]"
  let ?cur = "NewXMLElement (XName [] ''R'')"
  have h: "list_all2 (\<lambda>x t. scalarText sampleLib (elemOf x) = Some t
              \<and> Kind (elemOf x) \<notin> {KStruct, KSlice}) ?items [''a'', ''b'']"
    by simp
  have w1: \<open>Get ''locationName:"Tags"'' ''flattened'' = []\<close> by code_simp
  have w2: \<open>Get ''locationName:"Tags"'' ''locationName'' = ''Tags''\<close> by code_simp
  have w3: \<open>Get ''locationName:"Tags"'' ''locationNameList'' = []\<close> by code_simp
  have f1: \<open>Get ''locationName:"Tag" flattened:"true"'' ''flattened'' = ''true''\<close> by code_simp
  have f2: \<open>Get ''locationName:"Tag" flattened:"true"'' ''locationName'' = ''Tag''\<close> by code_simp
  from scalar_item_shape [OF h, of "XName [] []" ?cur \<open>''locationName:"Tags"''\<close>, THEN conjunct2]
  have a: \<open>buildList sampleLib (VSlice ?items) ?cur ''locationName:"Tags"''
       = Inr (XMLNode (XName [] ''R'')
           [(''Tags'',
             [XMLNode (XName [] ''Tags'')
               [(''member'',
                 [XMLNode (XName [] ''member'') [([], [XMLNode (XName [] []) [] ''a'' []])] [] [],
                  XMLNode (XName [] ''member'') [([], [XMLNode (XName [] []) [] ''b'' []])] [] []])]
               [] []])]
           [] [])\<close>
    by (simp add: w1 w2 w3 AddChild_def NewXMLElement_def)
  from scalar_item_shape [OF h, of "XName [] []" ?cur \<open>''locationName:"Tag" flattened:"true"''\<close>,
      THEN conjunct2]
  have b: \<open>buildList sampleLib (VSlice ?items) ?cur ''locationName:"Tag" flattened:"true"''
       = Inr (XMLNode (XName [] ''R'')
           [(''Tag'',
             [XMLNode (XName [] ''Tag'') [([], [XMLNode (XName [] []) [] ''a'' []])] [] [],
              XMLNode (XName [] ''Tag'') [([], [XMLNode (XName [] []) [] ''b'' []])] [] []])]
           [] [])\<close>
    by (simp add: f1 f2 AddChild_def NewXMLElement_def)
  from h a b show ?thesis by simp
qed

text \<open>
  The claim as stated speaks of every scalar item. A \<^verbatim>\<open>time.Time\<close> has a canonical text,
  but its kind is Struct: as a list item it is walked as a structure without exported
  fields, and the per-item element stays empty. (A \<^verbatim>\<open>[]byte\<close> item has kind Slice and is
  walked as a list of bytes.)
\<close>

theorem time_item_without_leaf:
  \<open>scalarText sampleLib (VTime 0) = Some ''1970-01-01T00:00:00Z''
   \<and> buildList sampleLib (VSlice [VPtr (VTime 0)]) (NewXMLElement (XName [] ''R''))
        ''locationName:"Times"''
       = Inr (XMLNode (XName [] ''R'')
           [(''Times'',
             [XMLNode (XName [] ''Times'') [(''member'', [XMLNode (XName [] ''member'') [] [] []])]
                [] []])]
           [] [])\<close>
  by code_simp

section \<open>Errors\<close>









section \<open>The shape of nodes\<close>

lemma wellShaped_alt:
  "wellShaped n \<longleftrightarrow>
     (Text n = [] \<or> Children n = []) \<and> (\<forall>g \<in> set (Children n). \<forall>c \<in> set (snd g). wellShaped c)"
  by (cases n) simp

lemma addToGroup_members:
  "(\<Union>g \<in> set (addToGroup k c gs). set (snd g)) = insert c (\<Union>g \<in> set gs. set (snd g))"
proof (induction gs)
  case Nil
  show ?case by simp
next
  case (Cons a gs)
  obtain k' g where a: "a = (k', g)" by (cases a)
  show ?case
  proof (cases "k' = k")
    case True
    then show ?thesis by (simp add: a)
  next
    case False
    then have "(\<Union>g \<in> set (addToGroup k c (a # gs)). set (snd g))
        = set g \<union> (\<Union>g \<in> set (addToGroup k c gs). set (snd g))"
      by (simp add: a)
    also have "\<dots> = set g \<union> insert c (\<Union>g \<in> set gs. set (snd g))"
      by (simp only: Cons.IH)
    also have "\<dots> = insert c (\<Union>g \<in> set (a # gs). set (snd g))"
      by (simp add: a)
    finally show ?thesis .
  qed
qed

lemma wellShaped_AddChild:
  "wellShaped n \<Longrightarrow> Text n = [] \<Longrightarrow> wellShaped c \<Longrightarrow> wellShaped (AddChild n c)"
proof -
  assume n: "wellShaped n" and t: "Text n = []" and c: "wellShaped c"
  have "\<forall>g \<in> set (addToGroup (Local (Name c)) c (Children n)). \<forall>x \<in> set (snd g). wellShaped x"
  proof (intro ballI)
    fix g x assume "g \<in> set (addToGroup (Local (Name c)) c (Children n))" "x \<in> set (snd g)"
    then have "x \<in> (\<Union>g \<in> set (addToGroup (Local (Name c)) c (Children n)). set (snd g))"
      by blast
    then have "x = c \<or> x \<in> (\<Union>g \<in> set (Children n). set (snd g))"
      by (simp only: addToGroup_members insert_iff)
    with n c show "wellShaped x" by (auto simp: wellShaped_alt [of n])
  qed
  with t show ?thesis by (simp add: AddChild_def)
qed

lemma wellShaped_appendAttr: "wellShaped n \<Longrightarrow> wellShaped (appendAttr n a)"
  by (cases n) (simp add: appendAttr_def)

lemma wellShaped_New: "wellShaped (NewXMLElement nm)"
  by (simp add: NewXMLElement_def)

lemma Text_structElement: "Text (structElement tag) = []"
  by (simp add: structElement_def Let_def NewXMLElement_def)

lemma wellShaped_structElement: "wellShaped (structElement tag)"
  by (simp add: structElement_def Let_def wellShaped_New wellShaped_appendAttr)

lemma wellShaped_buildScalar:
  "wellShaped cur \<Longrightarrow> Text cur = [] \<Longrightarrow> buildScalar L v cur tag = Inr r \<Longrightarrow> wellShaped r"
  by (auto simp: buildScalar_def Let_def wellShaped_appendAttr wellShaped_AddChild
      split: option.splits if_splits)


lemma buildFields_Text:
  "buildFields L fs child a = Inr (c, a') \<Longrightarrow> Text c = Text child"
proof (induction fs arbitrary: child a)
  case Nil
  then show ?case by simp
next
  case (Cons f fs)
  show ?case
  proof (cases "fname f")
    case Nil
    with Cons.prems show ?thesis by simp
  next
    case (Cons ch cs)
    show ?thesis
    proof (cases "lowerFirst ch \<or> Get (ftag f) ''location'' \<noteq> []")
      case True
      with Cons.prems \<open>fname f = ch # cs\<close> have "buildFields L fs child a = Inr (c, a')"
        by (auto split: if_splits)
      then show ?thesis by (rule Cons.IH)
    next
      case False
      with Cons.prems \<open>fname f = ch # cs\<close> obtain child' where
        b: "buildValue L (elemOf (fvalue f)) child (memberTag f) = Inr child'"
        and r: "buildFields L fs child' True = Inr (c, a')"
        by (auto split: sum.splits)
      from r have "Text c = Text child'" by (rule Cons.IH)
      with b show ?thesis by (auto dest: buildValue_sel)
    qed
  qed
qed

lemma wellShaped_build:
  "\<forall>r. wellShaped cur \<longrightarrow> Text cur = [] \<longrightarrow> buildValue L v cur tag = Inr r \<longrightarrow> wellShaped r"
  "\<forall>r. wellShaped cur2 \<longrightarrow> Text cur2 = [] \<longrightarrow> buildStruct L2 sv cur2 tag2 = Inr r \<longrightarrow> wellShaped r"
  "\<forall>c a'. wellShaped child \<longrightarrow> Text child = [] \<longrightarrow> buildFields L3 fs child a = Inr (c, a')
      \<longrightarrow> wellShaped c"
  "\<forall>r. wellShaped cur4 \<longrightarrow> Text cur4 = [] \<longrightarrow> buildList L4 lv cur4 tag4 = Inr r \<longrightarrow> wellShaped r"
  "\<forall>r. wellShaped parent \<longrightarrow> Text parent = [] \<longrightarrow> buildItems L5 xs nm parent = Inr r
      \<longrightarrow> wellShaped r"
proof (induction L v cur tag and L2 sv cur2 tag2 and L3 fs child a and L4 lv cur4 tag4
    and L5 xs nm parent rule: buildValue_buildStruct_buildFields_buildList_buildItems.induct)
  case (1 L v current tag)
  show ?case
  proof (intro allI impI)
    fix r
    assume w: "wellShaped current" and t: "Text current = []"
      and b: "buildValue L v current tag = Inr r"
    show "wellShaped r"
    proof (cases "elemOf v = VInvalid \<or> Get tag ''location'' \<noteq> []")
      case True
      with b w show ?thesis by (simp add: buildValue_skip)
    next
      case False
      then have v: "elemOf v \<noteq> VInvalid" and l: "\<not> Get tag ''location'' \<noteq> []" by simp_all
      from False have d: "elemOf v \<noteq> VInvalid" "Get tag ''location'' = []" by simp_all
      note bd = b [unfolded buildValue_dispatch [OF d]]
      show ?thesis
      proof (cases "resolveType (elemOf v) tag = ''structure''")
        case True
        with bd obtain fs where fs: "fieldsOf (elemOf v) = Some fs"
          and s: "buildStruct L (elemOf v) current
                    (case FieldByName fs ''SDKShapeTraits'' of None \<Rightarrow> tag
                     | Some f \<Rightarrow> tag @ '' '' @ ftag f) = Inr r"
          by (auto split: option.splits)
        from "1.IH"(1) [OF refl v l refl True fs] w t s show ?thesis by blast
      next
        case ns: False
        show ?thesis
        proof (cases "resolveType (elemOf v) tag = ''list''")
          case True
          with bd ns have s: "buildList L (elemOf v) current tag = Inr r"
            by simp
          from "1.IH"(2) [OF refl v l refl ns True] w t s show ?thesis by blast
        next
          case False
          with bd ns have "buildScalar L (elemOf v) current tag = Inr r"
            by (auto simp: buildMap_def split: if_splits)
          with w t show ?thesis by (rule wellShaped_buildScalar)
        qed
      qed
    qed
  qed
next
  case (2 L val current tag)
  show ?case
  proof (intro allI impI)
    fix r
    assume w: "wellShaped current" and t: "Text current = []"
      and b: "buildStruct L val current tag = Inr r"
    show "wellShaped r"
    proof (cases "val = VInvalid")
      case True
      with b w show ?thesis by (simp add: buildStruct.simps)
    next
      case False
      with b obtain val' tag' where u: "unwrapPayload val tag = Inr (val', tag')"
        by (auto simp: buildStruct.simps split: sum.splits)
      show ?thesis
      proof (cases "val' = VInvalid")
        case True
        with b u False w show ?thesis by (simp add: buildStruct.simps)
      next
        case v': False
        with b u False obtain fs child added where fs: "fieldsOf val' = Some fs"
          and f: "buildFields L fs (structElement tag') False = Inr (child, added)"
          and r: "r = (if added then AddChild current child else current)"
          by (auto simp: buildStruct.simps split: option.splits sum.splits)
        from "2.IH" [OF False u refl v' fs] f have "wellShaped child"
          using wellShaped_structElement Text_structElement by blast
        with r w t show ?thesis by (simp add: wellShaped_AddChild)
      qed
    qed
  qed
next
  case (3 L child fieldAdded)
  show ?case by simp
next
  case (4 L f fs child fieldAdded)
  show ?case
  proof (intro allI impI)
    fix c a'
    assume w: "wellShaped child" and t: "Text child = []"
      and b: "buildFields L (f # fs) child fieldAdded = Inr (c, a')"
    from b obtain ch cs where n: "fname f = ch # cs" by (cases "fname f") auto
    show "wellShaped c"
    proof (cases "lowerFirst ch")
      case True
      with b n have "buildFields L fs child fieldAdded = Inr (c, a')" by simp
      with "4.IH"(1) [OF n True] w t show ?thesis by blast
    next
      case nl: False
      show ?thesis
      proof (cases "Get (ftag f) ''location'' \<noteq> []")
        case True
        with b n nl have "buildFields L fs child fieldAdded = Inr (c, a')" by simp
        with "4.IH"(2) [OF n nl True] w t show ?thesis by blast
      next
        case False
        with b n nl obtain child' where
          v: "buildValue L (elemOf (fvalue f)) child (memberTag f) = Inr child'"
          and r: "buildFields L fs child' True = Inr (c, a')"
          by (auto split: sum.splits)
        from "4.IH"(3) [OF n nl False] w t v have w': "wellShaped child'" by blast
        from v t have t': "Text child' = []" by (auto dest: buildValue_sel)
        from "4.IH"(4) [OF n nl False v] w' t' r show ?thesis by blast
      qed
    qed
  qed
next
  case (5 L val current tag)
  show ?case
  proof (intro allI impI)
    fix r
    assume w: "wellShaped current" and t: "Text current = []"
      and b: "buildList L val current tag = Inr r"
    from b obtain items where i: "listItems val = Some items"
      by (auto simp: buildList.simps Let_def split: option.splits)
    show "wellShaped r"
    proof (cases "Get tag ''flattened'' \<noteq> []")
      case True
      with b i have "buildItems L items (XName [] (Get tag ''locationName'')) current = Inr r"
        by (simp add: buildList.simps)
      with "5.IH"(1) [OF refl refl i True] w t show ?thesis by blast
    next
      case False
      let ?iname = "if Get tag ''locationNameList'' = [] then ''member''
                    else Get tag ''locationNameList''"
      let ?list = "NewXMLElement (XName [] (Get tag ''locationName''))"
      from b i False obtain lst where
        l: "buildItems L items (XName [] ?iname) ?list = Inr lst"
        and r: "r = AddChild current lst"
        by (auto simp: buildList.simps Let_def split: sum.splits)
      have "wellShaped ?list" "Text ?list = []"
        by (simp_all add: wellShaped_New NewXMLElement_def)
      with "5.IH"(2) [OF refl refl i False refl] l have "wellShaped lst" by blast
      with r w t show ?thesis by (simp add: wellShaped_AddChild)
    qed
  qed
next
  case (6 L name parent)
  show ?case by simp
next
  case (7 L x xs name parent)
  show ?case
  proof (intro allI impI)
    fix r
    assume w: "wellShaped parent" and t: "Text parent = []"
      and b: "buildItems L (x # xs) name parent = Inr r"
    from b obtain child where v: "buildValue L x (NewXMLElement name) [] = Inr child"
      and r: "buildItems L xs name (AddChild parent child) = Inr r"
      by (auto split: sum.splits)
    have "wellShaped (NewXMLElement name)" "Text (NewXMLElement name) = []"
      by (simp_all add: wellShaped_New NewXMLElement_def)
    with "7.IH"(1) v have "wellShaped child" by blast
    with w t have "wellShaped (AddChild parent child)" by (simp add: wellShaped_AddChild)
    with "7.IH"(2) [OF v] r t show "wellShaped r" by simp
  qed
qed

lemma wellShaped_nodesOf:
  "wellShaped n \<longleftrightarrow> (\<forall>m \<in> set (nodesOf n). Text m = [] \<or> Children m = [])"
proof (induction n rule: wellShaped.induct)
  case (1 n cs t as)
  have "(\<forall>g \<in> set cs. \<forall>c \<in> set (snd g). wellShaped c) \<longleftrightarrow>
        (\<forall>g \<in> set cs. \<forall>c \<in> set (snd g). \<forall>m \<in> set (nodesOf c). Text m = [] \<or> Children m = [])"
    using 1 by blast
  then show ?case by auto
qed

lemma firstChild_member:
  "firstChild root = Some n \<Longrightarrow> \<exists>g \<in> set (Children root). n \<in> set (snd g)"
proof -
  assume "firstChild root = Some n"
  then obtain ns where "concat (map snd (Children root)) = n # ns"
    by (auto simp: firstChild_def split: list.splits)
  then have "n \<in> set (concat (map snd (Children root)))" by simp
  then show ?thesis by auto
qed

text \<open>
  Claim C8 (node shape invariant). Building into a well-shaped node without text
  yields a well-shaped node without text: text is only ever put into fresh leaves that
  never receive children, and children are only added to elements created without
  text. Hence in the tree \<^verbatim>\<open>BuildXML\<close> hands to the serializer every node has no text or
  no children: none carries both. (A string scalar that is empty yields a leaf with
  neither.)
\<close>

theorem node_shape_invariant:
  "(wellShaped current \<and> Text current = [] \<and> buildValue L v current tag = Inr r
      \<longrightarrow> wellShaped r \<and> Text r = [])
   \<and> (BuildXML L params = Inr (Some n)
      \<longrightarrow> wellShaped n \<and> (\<forall>m \<in> set (nodesOf n). Text m = [] \<or> Children m = []))"
proof (intro conjI impI; (elim conjE)?)
  assume w: "wellShaped current" and t: "Text current = []"
    and b: "buildValue L v current tag = Inr r"
  from wellShaped_build(1) w t b show "wellShaped r" by blast
  from b t show "Text r = []" by (auto dest: buildValue_sel)
next
  assume b: "BuildXML L params = Inr (Some n)"
  let ?root = "NewXMLElement (XName [] [])"
  from b obtain root where r: "buildValue L params ?root [] = Inr root"
    and f: "firstChild root = Some n"
    by (auto simp: BuildXML_def split: sum.splits)
  have "wellShaped ?root" "Text ?root = []" by (simp_all add: wellShaped_New NewXMLElement_def)
  with wellShaped_build(1) r have "wellShaped root" by blast
  moreover from f obtain g where "g \<in> set (Children root)" "n \<in> set (snd g)"
    by (auto dest: firstChild_member)
  ultimately show w: "wellShaped n" by (auto simp: wellShaped_alt [of root])
  then show "\<forall>m \<in> set (nodesOf n). Text m = [] \<or> Children m = []"
    by (simp add: wellShaped_nodesOf)
qed

theorem node_shape_invariant_witness:
  \<open>wellShaped (NewXMLElement (XName [] ''R'')) \<and> Text (NewXMLElement (XName [] ''R'')) = []
   \<and> buildValue sampleLib
        (VStruct [Field ''Name'' ''xmlAttribute:"true"'' False (VString ''x''),
                  Field ''Tags'' [] False (VSlice [VString ''a''])])
        (NewXMLElement (XName [] ''R'')) ''locationName:"S"''
      = Inr (XMLNode (XName [] ''R'')
          [(''S'', [XMLNode (XName [] ''S'')
              [(''Tags'', [XMLNode (XName [] ''Tags'')
                  [(''member'', [XMLNode (XName [] ''member'')
                      [([], [XMLNode (XName [] []) [] ''a'' []])] [] []])] [] []])]
              [] [XAttr (XName [] ''Name'') ''x'']])] [] [])
   \<and> wellShaped (XMLNode (XName [] ''R'')
          [(''S'', [XMLNode (XName [] ''S'')
              [(''Tags'', [XMLNode (XName [] ''Tags'')
                  [(''member'', [XMLNode (XName [] ''member'')
                      [([], [XMLNode (XName [] []) [] ''a'' []])] [] []])] [] []])]
              [] [XAttr (XName [] ''Name'') ''x'']])] [] [])
   \<and> BuildXML sampleLib (VStruct [Field ''Name'' [] False (VString ''x'')])
      = Inr (Some (XMLNode (XName [] []) [(''Name'', [XMLNode (XName [] ''Name'') [] ''x'' []])] [] []))
   \<and> wellShaped (XMLNode (XName [] []) [(''Name'', [XMLNode (XName [] ''Name'') [] ''x'' []])] [] [])
   \<and> list_all (\<lambda>m. Text m = [] \<or> Children m = [])
        (nodesOf (XMLNode (XName [] []) [(''Name'', [XMLNode (XName [] ''Name'') [] ''x'' []])] [] []))\<close>
proof -
  let ?cur = "NewXMLElement (XName [] ''R'')"
  let ?v = \<open>VStruct [Field ''Name'' ''xmlAttribute:"true"'' False (VString ''x''),
                  Field ''Tags'' [] False (VSlice [VString ''a''])]\<close>
  let ?r = "XMLNode (XName [] ''R'')
          [(''S'', [XMLNode (XName [] ''S'')
              [(''Tags'', [XMLNode (XName [] ''Tags'')
                  [(''member'', [XMLNode (XName [] ''member'')
                      [([], [XMLNode (XName [] []) [] ''a'' []])] [] []])] [] []])]
              [] [XAttr (XName [] ''Name'') ''x'']])] [] []"
  let ?p = "VStruct [Field ''Name'' [] False (VString ''x'')]"
  let ?n = "XMLNode (XName [] []) [(''Name'', [XMLNode (XName [] ''Name'') [] ''x'' []])] [] []"
  have w: "wellShaped ?cur" and t: "Text ?cur = []" by (simp_all add: NewXMLElement_def)
  have b: \<open>buildValue sampleLib ?v ?cur ''locationName:"S"'' = Inr ?r\<close> by code_simp
  have x: "BuildXML sampleLib ?p = Inr (Some ?n)" by code_simp
  note T = node_shape_invariant [where L = sampleLib and current = ?cur and v = ?v
      and tag = \<open>''locationName:"S"''\<close> and r = ?r and params = ?p and n = ?n]
  from T [THEN conjunct1] w t b have c1: "wellShaped ?r" by blast
  from T [THEN conjunct2] x have c2: "wellShaped ?n"
    and c3: "\<forall>m \<in> set (nodesOf ?n). Text m = [] \<or> Children m = []" by blast+
  from c3 have c4: "list_all (\<lambda>m. Text m = [] \<or> Children m = []) (nodesOf ?n)"
    by (simp only: list_all_iff)
  from w t b c1 x c2 c4 show ?thesis by blast
qed

section \<open>Tags joined by a blank\<close>

lemma splitQuoted_append:
  "splitQuoted r = Some (q, rest) \<Longrightarrow> splitQuoted (r @ s) = Some (q, rest @ s)"
proof (induction r arbitrary: q rest rule: splitQuoted.induct)
  case 1
  then show ?case by simp
next
  case (2 c cs)
  show ?case
  proof (cases "c = CHR 0x22")
    case True
    with "2.prems" show ?thesis by simp
  next
    case nq: False
    show ?thesis
    proof (cases "c = CHR 0x5C")
      case True
      with nq "2.prems" obtain d ds q' where cs: "cs = d # ds"
        and s: "splitQuoted ds = Some (q', rest)" and q: "q = c # d # q'"
        by (auto split: list.splits)
      from "2.IH"(1) [OF nq True cs s] have "splitQuoted (ds @ s) = Some (q', rest @ s)" .
      with nq True cs q show ?thesis by simp
    next
      case False
      with nq "2.prems" obtain q' where s: "splitQuoted cs = Some (q', rest)" and q: "q = c # q'"
        by auto
      from "2.IH"(2) [OF nq False s] have "splitQuoted (cs @ s) = Some (q', rest @ s)" .
      with nq False q show ?thesis by simp
    qed
  qed
qed

lemma nextPair_unfold:
  "nextPair tag =
     (if takeWhile isNameChar (dropWhile (\<lambda>c. c = CHR '' '') tag) = [] then None
      else (case dropWhile isNameChar (dropWhile (\<lambda>c. c = CHR '' '') tag) of
              [] \<Rightarrow> None
            | c1 # cs \<Rightarrow>
                (case cs of
                   [] \<Rightarrow> None
                 | c2 # r \<Rightarrow>
                     if c1 = CHR '':'' \<and> c2 = CHR 0x22
                     then map_option
                       (\<lambda>(q, rest).
                          (takeWhile isNameChar (dropWhile (\<lambda>c. c = CHR '' '') tag), q, rest))
                       (splitQuoted r)
                     else None)))"
  by (simp add: nextPair_def Let_def split: list.splits)

lemma pair_core:
  "(if name = [] then None
    else (case dr of
            [] \<Rightarrow> None
          | c1 # cs \<Rightarrow>
              (case cs of
                 [] \<Rightarrow> None
               | c2 # r \<Rightarrow>
                   if c1 = CHR '':'' \<and> c2 = CHR 0x22
                   then map_option (\<lambda>(q, rest). (name, q, rest)) (splitQuoted r)
                   else None))) = Some (n, q, rest)
   \<longleftrightarrow> (\<exists>r. n = name \<and> n \<noteq> [] \<and> dr = CHR '':'' # CHR 0x22 # r
          \<and> splitQuoted r = Some (q, rest))"
  by (auto split: list.splits if_splits)

lemma nextPair_Some_iff:
  "nextPair tag = Some (n, q, rest) \<longleftrightarrow>
     (\<exists>r. n = takeWhile isNameChar (dropWhile (\<lambda>c. c = CHR '' '') tag) \<and> n \<noteq> []
        \<and> dropWhile isNameChar (dropWhile (\<lambda>c. c = CHR '' '') tag) = CHR '':'' # CHR 0x22 # r
        \<and> splitQuoted r = Some (q, rest))"
  unfolding nextPair_unfold by (rule pair_core)

lemma nextPair_append:
  assumes "nextPair tag = Some (n, q, rest)"
  shows "nextPair (tag @ s) = Some (n, q, rest @ s)"
proof -
  let ?sp = "\<lambda>c. c = CHR '' ''"
  let ?t = "dropWhile ?sp tag"
  from assms obtain r where n: "n = takeWhile isNameChar ?t" and ne: "n \<noteq> []"
    and d: "dropWhile isNameChar ?t = CHR '':'' # CHR 0x22 # r"
    and sq: "splitQuoted r = Some (q, rest)"
    unfolding nextPair_Some_iff by blast
  have tne: "?t \<noteq> []"
  proof
    assume "?t = []"
    then have "takeWhile isNameChar ?t = []" by (simp only: takeWhile.simps)
    with n ne show False by simp
  qed
  then obtain x where x: "x \<in> set tag" "\<not> ?sp x"
    unfolding dropWhile_eq_Nil_conv by blast
  from x have t': "dropWhile ?sp (tag @ s) = ?t @ s" by (rule dropWhile_append1)
  have "CHR '':'' \<in> set (dropWhile isNameChar ?t)" unfolding d by simp
  then have c: "CHR '':'' \<in> set ?t" by (rule set_dropWhileD)
  have nc: "\<not> isNameChar CHR '':''" by (simp add: isNameChar_def)
  from c nc have tk: "takeWhile isNameChar (?t @ s) = takeWhile isNameChar ?t"
    by (rule takeWhile_append1)
  from c nc have dk: "dropWhile isNameChar (?t @ s) = dropWhile isNameChar ?t @ s"
    by (rule dropWhile_append1)
  from sq have sq': "splitQuoted (r @ s) = Some (q, rest @ s)" by (rule splitQuoted_append)
  have "\<exists>r'. n = takeWhile isNameChar (dropWhile ?sp (tag @ s)) \<and> n \<noteq> []
        \<and> dropWhile isNameChar (dropWhile ?sp (tag @ s)) = CHR '':'' # CHR 0x22 # r'
        \<and> splitQuoted r' = Some (q, rest @ s)"
  proof (intro exI conjI)
    show "n = takeWhile isNameChar (dropWhile ?sp (tag @ s))" by (simp only: t' tk n)
    show "n \<noteq> []" by (rule ne)
    show "dropWhile isNameChar (dropWhile ?sp (tag @ s)) = CHR '':'' # CHR 0x22 # (r @ s)"
      by (simp only: t' dk d append_Cons)
    show "splitQuoted (r @ s) = Some (q, rest @ s)" by (rule sq')
  qed
  then show ?thesis by (simp only: nextPair_Some_iff)
qed

lemma Lookup_blank_prefix:
  assumes "dropWhile (\<lambda>c. c = CHR '' '') tag = []"
  shows "Lookup (tag @ CHR '' '' # trait) key = Lookup trait key"
proof -
  let ?sp = "\<lambda>c. c = CHR '' ''"
  from assms have "\<forall>x \<in> set (tag @ [CHR '' '']). ?sp x"
    by (simp add: dropWhile_eq_Nil_conv)
  then have "dropWhile ?sp ((tag @ [CHR '' '']) @ trait) = dropWhile ?sp trait"
    by (intro dropWhile_append2) blast
  then have "nextPair (tag @ CHR '' '' # trait) = nextPair trait"
    by (simp add: nextPair_def)
  then show ?thesis by (simp add: Lookup.simps [of "tag @ CHR '' '' # trait"] Lookup.simps [of trait])
qed

lemma Lookup_merged:
  "tagPairs tag = Some ps \<Longrightarrow>
   Lookup (tag @ CHR '' '' # trait) key =
     (if key \<in> fst ` set ps then Lookup tag key else Lookup trait key)"
proof (induction tag arbitrary: ps rule: tagPairs.induct)
  case (1 tag)
  show ?case
  proof (cases "dropWhile (\<lambda>c. c = CHR '' '') tag = []")
    case True
    with "1.prems" have "ps = []" by (simp add: tagPairs.simps [of tag])
    with True show ?thesis by (simp add: Lookup_blank_prefix)
  next
    case False
    from "1.prems" have "(case nextPair tag of None \<Rightarrow> None
        | Some (name, q, rest) \<Rightarrow> map_option ((#) (name, q)) (tagPairs rest)) = Some ps"
      by (subst (asm) tagPairs.simps) (simp only: False if_False)
    then obtain n q rest ps' where np: "nextPair tag = Some (n, q, rest)"
      and tp: "tagPairs rest = Some ps'" and ps: "ps = (n, q) # ps'"
      by (auto split: option.splits)
    from np have na: "nextPair (tag @ CHR '' '' # trait) = Some (n, q, rest @ CHR '' '' # trait)"
      by (rule nextPair_append)
    show ?thesis
    proof (cases "key = n")
      case True
      with np na ps show ?thesis
        by (simp add: Lookup.simps [of "tag @ CHR '' '' # trait"] Lookup.simps [of tag])
    next
      case kn: False
      from "1.IH" [OF False np refl refl tp]
      have "Lookup (rest @ CHR '' '' # trait) key =
          (if key \<in> fst ` set ps' then Lookup rest key else Lookup trait key)" .
      with kn np na ps show ?thesis
        by (simp add: Lookup.simps [of "tag @ CHR '' '' # trait"] Lookup.simps [of tag])
    qed
  qed
qed

lemma Lookup_prefix:
  "Lookup tag key = Some val \<Longrightarrow> Lookup (tag @ s) key = Some val"
proof (induction tag key rule: Lookup.induct)
  case (1 tag key)
  from "1.prems" obtain n q rest where np: "nextPair tag = Some (n, q, rest)"
    by (subst (asm) Lookup.simps) (auto split: option.splits)
  then have na: "nextPair (tag @ s) = Some (n, q, rest @ s)" by (rule nextPair_append)
  show ?case
  proof (cases "key = n")
    case True
    with "1.prems" np na show ?thesis
      by (simp add: Lookup.simps [of "tag @ s"] Lookup.simps [of tag])
  next
    case False
    with "1.prems" np have "Lookup rest key = Some val" by (simp add: Lookup.simps [of tag])
    with "1.IH" [OF np refl refl False] have "Lookup (rest @ s) key = Some val" by simp
    with False na show ?thesis by (simp add: Lookup.simps [of "tag @ s"])
  qed
qed

text \<open>
  Claim C9 (implicit trait merging). For a valid body value resolved as a structure,
  \<^verbatim>\<open>buildValue\<close> looks the field \<^verbatim>\<open>SDKShapeTraits\<close> up by name (declared in the struct or
  promoted from an embedded one) and, if it is there, builds the structure under the
  current tag followed by a blank and that field's tag; without such a field the tag is
  unchanged. In the joined tag a key the current tag gives a value keeps it, whatever
  the trait tag says; and for a well-formed current tag every key it holds is answered
  by it and every other key by the trait tag, which thus supplies what the descriptor
  lacks.
\<close>

theorem trait_merging:
  "(elemOf v \<noteq> VInvalid \<and> Get tag ''location'' = [] \<and> resolveType (elemOf v) tag = ''structure''
      \<and> fieldsOf (elemOf v) = Some fs
     \<longrightarrow> buildValue L v current tag =
           buildStruct L (elemOf v) current
             (case FieldByName fs ''SDKShapeTraits'' of
                Some f \<Rightarrow> tag @ '' '' @ ftag f
              | None \<Rightarrow> tag))
   \<and> (Get tag key \<noteq> [] \<longrightarrow> Get (tag @ '' '' @ trait) key = Get tag key)
   \<and> (tagPairs tag = Some ps
     \<longrightarrow> Get (tag @ '' '' @ trait) key =
           (if key \<in> fst ` set ps then Get tag key else Get trait key))"
proof (intro conjI impI; (elim conjE)?)
  assume "elemOf v \<noteq> VInvalid" "Get tag ''location'' = []"
    "resolveType (elemOf v) tag = ''structure''" "fieldsOf (elemOf v) = Some fs"
  then show "buildValue L v current tag =
           buildStruct L (elemOf v) current
             (case FieldByName fs ''SDKShapeTraits'' of
                Some f \<Rightarrow> tag @ '' '' @ ftag f
              | None \<Rightarrow> tag)"
    by (simp add: buildValue_dispatch)
next
  assume "Get tag key \<noteq> []"
  then obtain val where "Lookup tag key = Some val"
    by (cases "Lookup tag key") (simp_all add: Get_def)
  with Lookup_prefix [OF this, of "'' '' @ trait"]
  show "Get (tag @ '' '' @ trait) key = Get tag key"
    by (simp add: Get_def)
next
  assume "tagPairs tag = Some ps"
  from Lookup_merged [OF this, of trait key]
  show "Get (tag @ '' '' @ trait) key = (if key \<in> fst ` set ps then Get tag key else Get trait key)"
    by (simp add: Get_def)
qed

theorem trait_merging_witness:
  \<open>fieldsOf (elemOf (VPtr (VStruct
       [Field ''Name'' [] False (VPtr (VString ''x'')),
        Field ''metadataReq'' [] True
          (VStruct [Field ''SDKShapeTraits'' ''locationName:"Req" type:"structure" xmlURI:"http://ns"''
                      False (VBool False)])])))
     = Some [Field ''Name'' [] False (VPtr (VString ''x'')),
        Field ''metadataReq'' [] True
          (VStruct [Field ''SDKShapeTraits'' ''locationName:"Req" type:"structure" xmlURI:"http://ns"''
                      False (VBool False)])]
   \<and> FieldByName [Field ''Name'' [] False (VPtr (VString ''x'')),
        Field ''metadataReq'' [] True
          (VStruct [Field ''SDKShapeTraits'' ''locationName:"Req" type:"structure" xmlURI:"http://ns"''
                      False (VBool False)])] ''SDKShapeTraits''
     = Some (Field ''SDKShapeTraits'' ''locationName:"Req" type:"structure" xmlURI:"http://ns"''
                      False (VBool False))
   \<and> buildValue sampleLib (VPtr (VStruct
       [Field ''Name'' [] False (VPtr (VString ''x'')),
        Field ''metadataReq'' [] True
          (VStruct [Field ''SDKShapeTraits'' ''locationName:"Req" type:"structure" xmlURI:"http://ns"''
                      False (VBool False)])])) (NewXMLElement (XName [] [])) []
     = Inr (XMLNode (XName [] [])
         [(''Req'', [XMLNode (XName [] ''Req'')
             [(''Name'', [XMLNode (XName [] ''Name'') [] ''x'' []])] []
             [XAttr (XName [] ''xmlns'') ''http://ns'']])] [] [])
   \<and> tagPairs ''locationName:"Own"'' = Some [(''locationName'', ''Own'')]
   \<and> Get (''locationName:"Own"'' @ '' '' @ ''locationName:"Req" type:"structure" xmlURI:"http://ns"'')
         ''locationName'' = ''Own''
   \<and> Get (''locationName:"Own"'' @ '' '' @ ''locationName:"Req" type:"structure" xmlURI:"http://ns"'')
         ''xmlURI'' = ''http://ns''\<close>
proof -
  let ?tr = \<open>''locationName:"Req" type:"structure" xmlURI:"http://ns"''\<close>
  let ?ft = "Field ''SDKShapeTraits'' ?tr False (VBool False)"
  let ?fs = "[Field ''Name'' [] False (VPtr (VString ''x'')),
        Field ''metadataReq'' [] True (VStruct [?ft])]"
  let ?v = "VPtr (VStruct ?fs)"
  let ?root = "NewXMLElement (XName [] [])"
  let ?own = \<open>''locationName:"Own"''\<close>
  have f: "fieldsOf (elemOf ?v) = Some ?fs" by simp
  have n: "FieldByName ?fs ''SDKShapeTraits'' = Some ?ft" by code_simp
  have r: "resolveType (elemOf ?v) [] = ''structure''" by (simp add: resolveType_def)
  have s: "buildStruct sampleLib (elemOf ?v) ?root ([] @ '' '' @ ftag ?ft)
     = Inr (XMLNode (XName [] [])
         [(''Req'', [XMLNode (XName [] ''Req'')
             [(''Name'', [XMLNode (XName [] ''Name'') [] ''x'' []])] []
             [XAttr (XName [] ''xmlns'') ''http://ns'']])] [] [])"
    by code_simp
  from trait_merging [where v = ?v and tag = "[]" and fs = ?fs and L = sampleLib
      and current = ?root, THEN conjunct1] f r
  have "buildValue sampleLib ?v ?root [] =
      buildStruct sampleLib (elemOf ?v) ?root
        (case FieldByName ?fs ''SDKShapeTraits'' of Some f \<Rightarrow> [] @ '' '' @ ftag f | None \<Rightarrow> [])"
    by simp
  then have b: "buildValue sampleLib ?v ?root [] =
      Inr (XMLNode (XName [] [])
         [(''Req'', [XMLNode (XName [] ''Req'')
             [(''Name'', [XMLNode (XName [] ''Name'') [] ''x'' []])] []
             [XAttr (XName [] ''xmlns'') ''http://ns'']])] [] [])"
    by (simp only: n option.case s)
  have tp: "tagPairs ?own = Some [(''locationName'', ''Own'')]" by code_simp
  have g1: "Get ?own ''locationName'' = ''Own''" by code_simp
  have g2: "Get ?tr ''xmlURI'' = ''http://ns''" by code_simp
  from trait_merging [where tag = ?own and key = "''locationName''" and trait = ?tr,
      THEN conjunct2, THEN conjunct1] g1
  have p: "Get (?own @ '' '' @ ?tr) ''locationName'' = ''Own''" by simp
  from trait_merging [where tag = ?own and key = "''xmlURI''" and trait = ?tr
      and ps = "[(''locationName'', ''Own'')]", THEN conjunct2, THEN conjunct2] tp g2
  have q: "Get (?own @ '' '' @ ?tr) ''xmlURI'' = ''http://ns''" by simp
  from f n b tp p q show ?thesis by (simp only: simp_thms)
qed

section \<open>Fields outside the body\<close>











section \<open>Payload fields\<close>

lemma unwrapPayload_found:
  "Get tag ''payload'' \<noteq> [] \<Longrightarrow> fieldsOf sv = Some fs \<Longrightarrow>
   unwrapPayload sv tag =
     (case FieldByName fs (Get tag ''payload'') of
        None \<Rightarrow> Inr (VInvalid, [])
      | Some f \<Rightarrow> Inr (elemOf (fvalue f), ftag f))"
  by (simp add: unwrapPayload_def)

lemma unwrapPayload_none: "Get tag ''payload'' = [] \<Longrightarrow> unwrapPayload sv tag = Inr (sv, tag)"
  by (simp add: unwrapPayload_def)

text \<open>
  Claim C2, as amended (payload unwrapping). Let the tag of a structure name a payload
  field. If the structure has no field of that name, or the field's dereferenced value
  is absent, nothing is emitted. Otherwise \<^verbatim>\<open>buildStruct\<close> goes on with the field's
  dereferenced value and the field's own declared tag, and does not resolve the node
  kind again: when the promoted value is a structure, its element is made from that
  tag alone and its fields are walked (no test of the field's \<^verbatim>\<open>location\<close> or \<^verbatim>\<open>type\<close>, no
  \<^verbatim>\<open>SDKShapeTraits\<close> of the promoted structure, no default location name); so the output
  is that of \<^verbatim>\<open>buildStruct\<close> on the promoted value under the field's tag, provided that
  tag names no payload of its own, and the outer wrapper never appears. A promoted
  value that is not a structure makes \<^verbatim>\<open>NumField\<close> panic.
\<close>

theorem payload_unwrapping:
  "(sv \<noteq> VInvalid \<and> Get tag ''payload'' \<noteq> [] \<and> fieldsOf sv = Some fs
      \<and> FieldByName fs (Get tag ''payload'') = None
     \<longrightarrow> buildStruct L sv current tag = Inr current)
   \<and> (sv \<noteq> VInvalid \<and> Get tag ''payload'' \<noteq> [] \<and> fieldsOf sv = Some fs
      \<and> FieldByName fs (Get tag ''payload'') = Some f \<and> elemOf (fvalue f) = VInvalid
     \<longrightarrow> buildStruct L sv current tag = Inr current)
   \<and> (sv \<noteq> VInvalid \<and> Get tag ''payload'' \<noteq> [] \<and> fieldsOf sv = Some fs
      \<and> FieldByName fs (Get tag ''payload'') = Some f \<and> fieldsOf (elemOf (fvalue f)) = Some gs
     \<longrightarrow> buildStruct L sv current tag =
          (case buildFields L gs (structElement (ftag f)) False of
             Inl e \<Rightarrow> Inl e
           | Inr (child, fieldAdded) \<Rightarrow>
               Inr (if fieldAdded then AddChild current child else current)))
   \<and> (sv \<noteq> VInvalid \<and> Get tag ''payload'' \<noteq> [] \<and> fieldsOf sv = Some fs
      \<and> FieldByName fs (Get tag ''payload'') = Some f \<and> Get (ftag f) ''payload'' = []
     \<longrightarrow> buildStruct L sv current tag = buildStruct L (elemOf (fvalue f)) current (ftag f))
   \<and> (sv \<noteq> VInvalid \<and> Get tag ''payload'' \<noteq> [] \<and> fieldsOf sv = Some fs
      \<and> FieldByName fs (Get tag ''payload'') = Some f
      \<and> elemOf (fvalue f) \<noteq> VInvalid \<and> fieldsOf (elemOf (fvalue f)) = None
     \<longrightarrow> buildStruct L sv current tag = Inl Panic)"
proof (intro conjI impI; (elim conjE)?)
  assume "sv \<noteq> VInvalid" "Get tag ''payload'' \<noteq> []" "fieldsOf sv = Some fs"
    "FieldByName fs (Get tag ''payload'') = None"
  then show "buildStruct L sv current tag = Inr current"
    by (simp add: buildStruct.simps unwrapPayload_found)
next
  assume "sv \<noteq> VInvalid" "Get tag ''payload'' \<noteq> []" "fieldsOf sv = Some fs"
    "FieldByName fs (Get tag ''payload'') = Some f" "elemOf (fvalue f) = VInvalid"
  then show "buildStruct L sv current tag = Inr current"
    by (simp add: buildStruct.simps unwrapPayload_found)
next
  assume a: "sv \<noteq> VInvalid" "Get tag ''payload'' \<noteq> []" "fieldsOf sv = Some fs"
    "FieldByName fs (Get tag ''payload'') = Some f"
    and g: "fieldsOf (elemOf (fvalue f)) = Some gs"
  from g have "elemOf (fvalue f) \<noteq> VInvalid" by auto
  with a g show "buildStruct L sv current tag =
          (case buildFields L gs (structElement (ftag f)) False of
             Inl e \<Rightarrow> Inl e
           | Inr (child, fieldAdded) \<Rightarrow>
               Inr (if fieldAdded then AddChild current child else current))"
    by (simp add: buildStruct.simps [of L sv] unwrapPayload_found)
next
  assume a: "sv \<noteq> VInvalid" "Get tag ''payload'' \<noteq> []" "fieldsOf sv = Some fs"
    "FieldByName fs (Get tag ''payload'') = Some f"
    and p: "Get (ftag f) ''payload'' = []"
  show "buildStruct L sv current tag = buildStruct L (elemOf (fvalue f)) current (ftag f)"
  proof (cases "elemOf (fvalue f) = VInvalid")
    case True
    with a show ?thesis
      by (simp add: buildStruct.simps [of L sv] buildStruct.simps [of L VInvalid]
          unwrapPayload_found)
  next
    case False
    with a p show ?thesis
      by (simp add: buildStruct.simps [of L sv] buildStruct.simps [of L "elemOf (fvalue f)"]
          unwrapPayload_found unwrapPayload_none)
  qed
next
  assume "sv \<noteq> VInvalid" "Get tag ''payload'' \<noteq> []" "fieldsOf sv = Some fs"
    "FieldByName fs (Get tag ''payload'') = Some f"
    "elemOf (fvalue f) \<noteq> VInvalid" "fieldsOf (elemOf (fvalue f)) = None"
  then show "buildStruct L sv current tag = Inl Panic"
    by (simp add: buildStruct.simps [of L sv] unwrapPayload_found)
qed

theorem payload_unwrapping_witness:
  \<open>buildStruct sampleLib
       (VStruct [Field ''Body'' ''locationName:"Config" type:"structure"'' False (VPtr VInvalid)])
       (NewXMLElement (XName [] ''R'')) ''payload:"Missing"''
     = Inr (NewXMLElement (XName [] ''R''))
   \<and> buildStruct sampleLib
       (VStruct [Field ''Body'' ''locationName:"Config" type:"structure"'' False (VPtr VInvalid)])
       (NewXMLElement (XName [] ''R'')) ''payload:"Body"''
     = Inr (NewXMLElement (XName [] ''R''))
   \<and> FieldByName
        [Field ''Bucket'' ''location:"uri" locationName:"Bucket"'' False (VPtr (VString ''b'')),
         Field ''Body'' ''locationName:"Config" type:"structure"'' False
           (VPtr (VStruct [Field ''Region'' ''locationName:"Region"'' False (VPtr (VString ''eu''))])),
         Field ''metadataInput'' [] True
           (VStruct [Field ''SDKShapeTraits'' ''payload:"Body" type:"structure"'' False (VBool False)])]
        ''Body''
     = Some (Field ''Body'' ''locationName:"Config" type:"structure"'' False
           (VPtr (VStruct [Field ''Region'' ''locationName:"Region"'' False (VPtr (VString ''eu''))])))
   \<and> buildStruct sampleLib
       (VStruct
        [Field ''Bucket'' ''location:"uri" locationName:"Bucket"'' False (VPtr (VString ''b'')),
         Field ''Body'' ''locationName:"Config" type:"structure"'' False
           (VPtr (VStruct [Field ''Region'' ''locationName:"Region"'' False (VPtr (VString ''eu''))])),
         Field ''metadataInput'' [] True
           (VStruct [Field ''SDKShapeTraits'' ''payload:"Body" type:"structure"'' False (VBool False)])])
       (NewXMLElement (XName [] ''R'')) '' payload:"Body" type:"structure"''
     = Inr (XMLNode (XName [] ''R'')
         [(''Config'', [XMLNode (XName [] ''Config'')
             [(''Region'', [XMLNode (XName [] ''Region'') [] ''eu'' []])] [] []])] [] [])
   \<and> buildStruct sampleLib
       (VStruct [Field ''Region'' ''locationName:"Region"'' False (VPtr (VString ''eu''))])
       (NewXMLElement (XName [] ''R'')) ''locationName:"Config" type:"structure"''
     = Inr (XMLNode (XName [] ''R'')
         [(''Config'', [XMLNode (XName [] ''Config'')
             [(''Region'', [XMLNode (XName [] ''Region'') [] ''eu'' []])] [] []])] [] [])
   \<and> buildStruct sampleLib
       (VStruct [Field ''Body'' ''type:"string"'' False (VPtr (VString ''raw''))])
       (NewXMLElement (XName [] ''R'')) ''payload:"Body"''
     = Inl Panic\<close>
proof -
  let ?r = "NewXMLElement (XName [] ''R'')"
  let ?bt = \<open>''locationName:"Config" type:"structure"''\<close>
  let ?nil = "[Field ''Body'' ?bt False (VPtr VInvalid)]"
  let ?in = \<open>VStruct [Field ''Region'' ''locationName:"Region"'' False (VPtr (VString ''eu''))]\<close>
  let ?fb = "Field ''Body'' ?bt False (VPtr ?in)"
  let ?fs = \<open>[Field ''Bucket'' ''location:"uri" locationName:"Bucket"'' False (VPtr (VString ''b'')),
         ?fb,
         Field ''metadataInput'' [] True
           (VStruct [Field ''SDKShapeTraits'' ''payload:"Body" type:"structure"'' False (VBool False)])]\<close>
  let ?pt = \<open>'' payload:"Body" type:"structure"''\<close>
  let ?out = "XMLNode (XName [] ''R'')
         [(''Config'', [XMLNode (XName [] ''Config'')
             [(''Region'', [XMLNode (XName [] ''Region'') [] ''eu'' []])] [] []])] [] []"
  let ?sf = \<open>Field ''Body'' ''type:"string"'' False (VPtr (VString ''raw''))\<close>
  note T = payload_unwrapping [where L = sampleLib and current = ?r]
  have m1: \<open>Get ''payload:"Missing"'' ''payload'' = ''Missing''\<close> by code_simp
  have m2: "FieldByName ?nil ''Missing'' = None" by code_simp
  from T [where sv = "VStruct ?nil" and tag = \<open>''payload:"Missing"''\<close> and fs = ?nil,
      THEN conjunct1] m2
  have a: \<open>buildStruct sampleLib (VStruct ?nil) ?r ''payload:"Missing"'' = Inr ?r\<close>
    by (simp add: m1)
  have n1: \<open>Get ''payload:"Body"'' ''payload'' = ''Body''\<close> by code_simp
  have n2: "FieldByName ?nil ''Body'' = Some (Field ''Body'' ?bt False (VPtr VInvalid))"
    by code_simp
  from T [where sv = "VStruct ?nil" and tag = \<open>''payload:"Body"''\<close> and fs = ?nil
      and f = "Field ''Body'' ?bt False (VPtr VInvalid)", THEN conjunct2, THEN conjunct1] n2
  have b: \<open>buildStruct sampleLib (VStruct ?nil) ?r ''payload:"Body"'' = Inr ?r\<close>
    by (simp add: n1)
  have p1: "Get ?pt ''payload'' = ''Body''" by code_simp
  have p2: "FieldByName ?fs ''Body'' = Some ?fb" by code_simp
  have p3: "Get ?bt ''payload'' = []" by code_simp
  have p4: "buildStruct sampleLib ?in ?r ?bt = Inr ?out" by code_simp
  have p5: "(case buildFields sampleLib
                 [Field ''Region'' ''locationName:\"Region\"'' False (VPtr (VString ''eu''))]
                 (structElement ?bt) False of
             Inl e \<Rightarrow> Inl e
           | Inr (child, fieldAdded) \<Rightarrow> Inr (if fieldAdded then AddChild ?r child else ?r))
      = Inr ?out"
    by code_simp
  from T [where sv = "VStruct ?fs" and tag = ?pt and fs = ?fs and f = ?fb,
      THEN conjunct2, THEN conjunct2, THEN conjunct2, THEN conjunct1] p2
  have c: "buildStruct sampleLib (VStruct ?fs) ?r ?pt = buildStruct sampleLib ?in ?r ?bt"
    by (simp add: p1 p3)
  have pre: \<open>VStruct ?fs \<noteq> VInvalid \<and> Get ?pt ''payload'' \<noteq> [] \<and> fieldsOf (VStruct ?fs) = Some ?fs
      \<and> FieldByName ?fs (Get ?pt ''payload'') = Some ?fb
      \<and> fieldsOf (elemOf (fvalue ?fb))
          = Some [Field ''Region'' ''locationName:"Region"'' False (VPtr (VString ''eu''))]\<close>
    by (simp add: p1 p2)
  from T [where sv = "VStruct ?fs" and tag = ?pt and fs = ?fs and f = ?fb
      and gs = \<open>[Field ''Region'' ''locationName:"Region"'' False (VPtr (VString ''eu''))]\<close>,
      THEN conjunct2, THEN conjunct2, THEN conjunct1, THEN mp, OF pre]
  have c': "buildStruct sampleLib (VStruct ?fs) ?r ?pt = Inr ?out"
    by (simp only: field.sel p5)
  have s2: "FieldByName [?sf] ''Body'' = Some ?sf" by code_simp
  from T [where sv = "VStruct [?sf]" and tag = \<open>''payload:"Body"''\<close> and fs = "[?sf]"
      and f = ?sf, THEN conjunct2, THEN conjunct2, THEN conjunct2, THEN conjunct2] s2
  have d: \<open>buildStruct sampleLib (VStruct [?sf]) ?r ''payload:"Body"'' = Inl Panic\<close>
    by (simp add: n1)
  from a b p2 c c' p4 d show ?thesis by (simp only: simp_thms)
qed

text \<open>
  The claim as stated has the node kind resolved again (section 4.2 of the spec, that
  is \<^verbatim>\<open>buildValue\<close>), so that the output is that of building the promoted field directly.
  \<^verbatim>\<open>buildValue\<close> would merge the \<^verbatim>\<open>SDKShapeTraits\<close> of the promoted structure into the tag
  (lines 61-63); the payload path (lines 82-90) stays inside \<^verbatim>\<open>buildStruct\<close> and does not.
  Here the promoted structure declares a namespace in its traits: built through the
  payload it has no \<^verbatim>\<open>xmlns\<close> attribute, built directly it has one.
\<close>

theorem payload_not_reresolved:
  \<open>BuildXML sampleLib
       (VPtr (VStruct
        [Field ''Body'' ''locationName:"Config" type:"structure"'' False
           (VPtr (VStruct
              [Field ''Region'' ''locationName:"Region"'' False (VPtr (VString ''eu'')),
               Field ''metadataConfig'' [] True
                 (VStruct [Field ''SDKShapeTraits'' ''type:"structure" xmlURI:"http://ns"'' False
                             (VBool False)])])),
         Field ''metadataInput'' [] True
           (VStruct [Field ''SDKShapeTraits'' ''payload:"Body" type:"structure"'' False (VBool False)])]))
     = Inr (Some (XMLNode (XName [] ''Config'')
             [(''Region'', [XMLNode (XName [] ''Region'') [] ''eu'' []])] [] []))
   \<and> buildValue sampleLib
       (VPtr (VStruct
              [Field ''Region'' ''locationName:"Region"'' False (VPtr (VString ''eu'')),
               Field ''metadataConfig'' [] True
                 (VStruct [Field ''SDKShapeTraits'' ''type:"structure" xmlURI:"http://ns"'' False
                             (VBool False)])]))
       (NewXMLElement (XName [] [])) ''locationName:"Config" type:"structure"''
     = Inr (XMLNode (XName [] [])
         [(''Config'', [XMLNode (XName [] ''Config'')
             [(''Region'', [XMLNode (XName [] ''Region'') [] ''eu'' []])] []
             [XAttr (XName [] ''xmlns'') ''http://ns'']])] [] [])\<close>
  by code_simp

section \<open>Attaching the element of a structure\<close>

lemma buildFields_flag:
  "buildFields L fs child a = Inr (c, a') \<Longrightarrow>
     (a' \<longleftrightarrow> a \<or> (\<exists>f \<in> set fs. kept f)) \<and> (\<not> a' \<longrightarrow> c = child)"
proof (induction fs arbitrary: child a)
  case Nil
  then show ?case by simp
next
  case (Cons f fs)
  from Cons.prems obtain ch cs where n: "fname f = ch # cs" by (cases "fname f") auto
  show ?case
  proof (cases "kept f")
    case False
    with n have "lowerFirst ch \<or> Get (ftag f) ''location'' \<noteq> []" by (simp add: kept_def)
    with Cons.prems n have "buildFields L fs child a = Inr (c, a')"
      by (auto split: if_splits)
    from Cons.IH [OF this] False show ?thesis by simp
  next
    case True
    with n have k: "\<not> lowerFirst ch" "Get (ftag f) ''location'' = []" by (simp_all add: kept_def)
    with Cons.prems n obtain child' where "buildFields L fs child' True = Inr (c, a')"
      by (auto split: sum.splits)
    from Cons.IH [OF this] True show ?thesis by simp
  qed
qed

lemma buildFields_none_kept:
  "\<forall>f \<in> set fs. fname f \<noteq> [] \<and> \<not> kept f \<Longrightarrow> buildFields L fs child a = Inr (child, a)"
proof (induction fs)
  case Nil
  show ?case by simp
next
  case (Cons f fs)
  then obtain ch cs where n: "fname f = ch # cs" by (cases "fname f") auto
  from Cons.prems have "\<not> kept f" by simp
  with n have "lowerFirst ch \<or> Get (ftag f) ''location'' \<noteq> []"
    by (auto simp: kept_def)
  moreover from Cons have "buildFields L fs child a = Inr (child, a)" by simp
  ultimately show ?case using n by auto
qed

text \<open>
  Claim C1, as amended (when a structure's element is attached). If \<^verbatim>\<open>buildStruct\<close>
  succeeds on a structure (after payload unwrapping, with fields \<open>fs\<close>), the result is
  the parent itself or the parent with the structure's element added as one child. The
  element is attached only if some field passes the filter of the loop (exported, no
  \<^verbatim>\<open>location\<close>), and it is attached whenever the fields put anything into it, a child
  node or an attribute. A structure none of whose fields passes the filter (all of
  them headers, query parameters or unexported) yields no element at all: the parent
  is returned as it was.
\<close>

theorem struct_attachment:
  "(buildStruct L sv current tag = Inr r \<and> sv \<noteq> VInvalid
      \<and> unwrapPayload sv tag = Inr (sv', tag') \<and> fieldsOf sv' = Some fs
     \<longrightarrow> (\<exists>child added.
            buildFields L fs (structElement tag') False = Inr (child, added)
          \<and> r = (if added then AddChild current child else current)
          \<and> (added \<longrightarrow> (\<exists>f \<in> set fs. kept f))
          \<and> (Children child \<noteq> [] \<or> Attr child \<noteq> Attr (structElement tag') \<longrightarrow> added)))
   \<and> (sv \<noteq> VInvalid \<and> unwrapPayload sv tag = Inr (sv', tag') \<and> fieldsOf sv' = Some fs
      \<and> (\<forall>f \<in> set fs. fname f \<noteq> [] \<and> \<not> kept f)
     \<longrightarrow> buildStruct L sv current tag = Inr current)"
proof (intro conjI impI; (elim conjE)?)
  assume b: "buildStruct L sv current tag = Inr r" and v: "sv \<noteq> VInvalid"
    and u: "unwrapPayload sv tag = Inr (sv', tag')" and f: "fieldsOf sv' = Some fs"
  from f have v': "sv' \<noteq> VInvalid" by auto
  from b v u v' f obtain child added where
    bf: "buildFields L fs (structElement tag') False = Inr (child, added)"
    and r: "r = (if added then AddChild current child else current)"
    by (auto simp: buildStruct.simps [of L sv] split: sum.splits)
  from buildFields_flag [OF bf] have fl: "added \<longleftrightarrow> (\<exists>f \<in> set fs. kept f)"
    and same: "\<not> added \<longrightarrow> child = structElement tag'"
    by simp_all
  have nc: "Children (structElement tag') = []"
    by (simp add: structElement_def Let_def NewXMLElement_def)
  from same nc have "Children child \<noteq> [] \<or> Attr child \<noteq> Attr (structElement tag') \<longrightarrow> added"
    by auto
  with bf r fl
  show "\<exists>child added.
            buildFields L fs (structElement tag') False = Inr (child, added)
          \<and> r = (if added then AddChild current child else current)
          \<and> (added \<longrightarrow> (\<exists>f \<in> set fs. kept f))
          \<and> (Children child \<noteq> [] \<or> Attr child \<noteq> Attr (structElement tag') \<longrightarrow> added)"
    by blast
next
  assume v: "sv \<noteq> VInvalid" and u: "unwrapPayload sv tag = Inr (sv', tag')"
    and f: "fieldsOf sv' = Some fs" and k: "\<forall>f \<in> set fs. fname f \<noteq> [] \<and> \<not> kept f"
  from f have v': "sv' \<noteq> VInvalid" by auto
  from k have "buildFields L fs (structElement tag') False = Inr (structElement tag', False)"
    by (rule buildFields_none_kept)
  with v u v' f show "buildStruct L sv current tag = Inr current"
    by (simp add: buildStruct.simps [of L sv])
qed

theorem struct_attachment_witness:
  \<open>buildStruct sampleLib
       (VStruct [Field ''Id'' ''locationName:"id" xmlAttribute:"true"'' False (VPtr (VString ''7''))])
       (NewXMLElement (XName [] ''R'')) ''locationName:"Item"''
     = Inr (XMLNode (XName [] ''R'')
         [(''Item'', [XMLNode (XName [] ''Item'') [] [] [XAttr (XName [] ''id'') ''7'']])] [] [])
   \<and> unwrapPayload
       (VStruct [Field ''Id'' ''locationName:"id" xmlAttribute:"true"'' False (VPtr (VString ''7''))])
       ''locationName:"Item"''
     = Inr (VStruct [Field ''Id'' ''locationName:"id" xmlAttribute:"true"'' False (VPtr (VString ''7''))],
            ''locationName:"Item"'')
   \<and> kept (Field ''Id'' ''locationName:"id" xmlAttribute:"true"'' False (VPtr (VString ''7'')))
   \<and> \<not> kept (Field ''Bucket'' ''location:"uri" locationName:"Bucket"'' False (VPtr (VString ''b'')))
   \<and> unwrapPayload
       (VStruct [Field ''Bucket'' ''location:"uri" locationName:"Bucket"'' False (VPtr (VString ''b''))])
       ''locationName:"Item"''
     = Inr (VStruct [Field ''Bucket'' ''location:"uri" locationName:"Bucket"'' False
                       (VPtr (VString ''b''))],
            ''locationName:"Item"'')
   \<and> buildStruct sampleLib
       (VStruct [Field ''Bucket'' ''location:"uri" locationName:"Bucket"'' False (VPtr (VString ''b''))])
       (NewXMLElement (XName [] ''R'')) ''locationName:"Item"''
     = Inr (NewXMLElement (XName [] ''R''))\<close>
proof -
  let ?fi = \<open>Field ''Id'' ''locationName:"id" xmlAttribute:"true"'' False (VPtr (VString ''7''))\<close>
  let ?fb = \<open>Field ''Bucket'' ''location:"uri" locationName:"Bucket"'' False (VPtr (VString ''b''))\<close>
  let ?t = \<open>''locationName:"Item"''\<close>
  let ?cur = "NewXMLElement (XName [] ''R'')"
  let ?r = "XMLNode (XName [] ''R'')
         [(''Item'', [XMLNode (XName [] ''Item'') [] [] [XAttr (XName [] ''id'') ''7'']])] [] []"
  note T = struct_attachment [where L = sampleLib and current = ?cur and tag = ?t and tag' = ?t]
  have b: "buildStruct sampleLib (VStruct [?fi]) ?cur ?t = Inr ?r" by code_simp
  have u: "unwrapPayload (VStruct [?fi]) ?t = Inr (VStruct [?fi], ?t)" by code_simp
  have pre: "buildStruct sampleLib (VStruct [?fi]) ?cur ?t = Inr ?r \<and> VStruct [?fi] \<noteq> VInvalid
      \<and> unwrapPayload (VStruct [?fi]) ?t = Inr (VStruct [?fi], ?t)
      \<and> fieldsOf (VStruct [?fi]) = Some [?fi]"
    using b u by simp
  from T [where sv = "VStruct [?fi]" and sv' = "VStruct [?fi]" and fs = "[?fi]" and r = ?r,
      THEN conjunct1, THEN mp, OF pre]
  obtain child added where
    bf: "buildFields sampleLib [?fi] (structElement ?t) False = Inr (child, added)"
    and k: "added \<longrightarrow> (\<exists>f \<in> set [?fi]. kept f)"
    and c: "Children child \<noteq> [] \<or> Attr child \<noteq> Attr (structElement ?t) \<longrightarrow> added"
    by blast
  have e: "buildFields sampleLib [?fi] (structElement ?t) False
      = Inr (XMLNode (XName [] ''Item'') [] [] [XAttr (XName [] ''id'') ''7''], True)"
    by code_simp
  have s: "Attr (structElement ?t) = []" by code_simp
  from bf e have "child = XMLNode (XName [] ''Item'') [] [] [XAttr (XName [] ''id'') ''7'']"
    by simp
  with c s have added by simp
  with k have ki: "kept ?fi" by simp
  have nk: "\<not> kept ?fb" by (simp add: kept_def) code_simp
  have u2: "unwrapPayload (VStruct [?fb]) ?t = Inr (VStruct [?fb], ?t)" by code_simp
  have pre2: "VStruct [?fb] \<noteq> VInvalid
      \<and> unwrapPayload (VStruct [?fb]) ?t = Inr (VStruct [?fb], ?t)
      \<and> fieldsOf (VStruct [?fb]) = Some [?fb]
      \<and> (\<forall>f \<in> set [?fb]. fname f \<noteq> [] \<and> \<not> kept f)"
    using u2 nk by simp
  from T [where sv = "VStruct [?fb]" and sv' = "VStruct [?fb]" and fs = "[?fb]",
      THEN conjunct2, THEN mp, OF pre2]
  have d: "buildStruct sampleLib (VStruct [?fb]) ?cur ?t = Inr ?cur" .
  from b u ki nk u2 d show ?thesis by (simp only: simp_thms)
qed

text \<open>
  The claim as stated ties the attachment to a child node. A scalar field marked
  \<^verbatim>\<open>xmlAttribute\<close> produces no child node, only an attribute of the structure's element,
  and the element is attached all the same.
\<close>

theorem attribute_only_structure_attached:
  \<open>buildValue sampleLib (VPtr (VString ''7'')) (NewXMLElement (XName [] ''Item''))
       ''locationName:"id" xmlAttribute:"true"''
     = Inr (XMLNode (XName [] ''Item'') [] [] [XAttr (XName [] ''id'') ''7''])
   \<and> buildStruct sampleLib
       (VStruct [Field ''Id'' ''locationName:"id" xmlAttribute:"true"'' False (VPtr (VString ''7''))])
       (NewXMLElement (XName [] ''R'')) ''locationName:"Item"''
     = Inr (XMLNode (XName [] ''R'')
         [(''Item'', [XMLNode (XName [] ''Item'') [] [] [XAttr (XName [] ''id'') ''7'']])] [] [])\<close>
  by code_simp

text \<open>
  A structure whose only body field is nil: \<^verbatim>\<open>fieldAdded\<close> is set after every field that
  passes the filter, also when \<^verbatim>\<open>buildValue\<close> skipped its nil value (line 131), so the
  empty element is attached. The comment on line 134 speaks of "valid members"; the
  theorem above neither promises nor excludes an element in this case.
\<close>

lemma nil_fields_structure:
  \<open>buildStruct sampleLib (VStruct [Field ''A'' [] False (VPtr VInvalid)])
       (NewXMLElement (XName [] ''R'')) ''locationName:"S"''
     = Inr (XMLNode (XName [] ''R'') [(''S'', [XMLNode (XName [] ''S'') [] [] []])] [] [])\<close>
  by code_simp

end
